theory Spec2Isabelle
  imports Complex_Main
begin

section \<open>Numbers of the source\<close>

text \<open>
  The editor computes with JavaScript numbers. They are modelled as real numbers, so the
  rounding of double-precision arithmetic is left out; the operators below are the
  real-number readings of \<^verbatim>\<open>%\<close> (the remainder that takes the sign of the dividend)
  and of \<^verbatim>\<open>Math.round\<close> (nearest integer, halves upwards).
\<close>

definition js_trunc :: "real \<Rightarrow> int" where
  "js_trunc q = (if q < 0 then \<lceil>q\<rceil> else \<lfloor>q\<rfloor>)"

definition js_rem :: "real \<Rightarrow> real \<Rightarrow> real" where
  "js_rem a b = a - b * of_int (js_trunc (a / b))"

definition js_round :: "real \<Rightarrow> real" where
  "js_round v = of_int \<lfloor>v + 1 / 2\<rfloor>"

section \<open>Geometry: edges under rotation and flip\<close>

datatype edge = Top | Right | Bottom | Left

text \<open>
  \<^verbatim>\<open>let rot = ((rotation % 360) + 360) % 360; rot = Math.round(rot / 90) * 90 % 360;\<close>
  as it opens both \<^verbatim>\<open>getSourceEdge\<close> and the anchoring part of \<^verbatim>\<open>applyCropBounds\<close>.
\<close>

definition snapRotation :: "real \<Rightarrow> real" where
  "snapRotation rotation =
     (let rot = js_rem (js_rem rotation 360 + 360) 360
      in js_rem (js_round (rot / 90) * 90) 360)"

text \<open>The table \<^verbatim>\<open>rotationMaps\<close> of \<^verbatim>\<open>getSourceEdge\<close>; a key that is absent gives \<open>None\<close>.\<close>

fun rotationMap0 :: "edge \<Rightarrow> edge" where
  "rotationMap0 Top = Top"
| "rotationMap0 Right = Right"
| "rotationMap0 Bottom = Bottom"
| "rotationMap0 Left = Left"

fun rotationMap90 :: "edge \<Rightarrow> edge" where
  "rotationMap90 Top = Left"
| "rotationMap90 Right = Top"
| "rotationMap90 Bottom = Right"
| "rotationMap90 Left = Bottom"

fun rotationMap180 :: "edge \<Rightarrow> edge" where
  "rotationMap180 Top = Bottom"
| "rotationMap180 Right = Left"
| "rotationMap180 Bottom = Top"
| "rotationMap180 Left = Right"

fun rotationMap270 :: "edge \<Rightarrow> edge" where
  "rotationMap270 Top = Right"
| "rotationMap270 Right = Bottom"
| "rotationMap270 Bottom = Left"
| "rotationMap270 Left = Top"

definition rotationMaps :: "real \<Rightarrow> (edge \<Rightarrow> edge) option" where
  "rotationMaps rot =
     (if rot = 0 then Some rotationMap0
      else if rot = 90 then Some rotationMap90
      else if rot = 180 then Some rotationMap180
      else if rot = 270 then Some rotationMap270
      else None)"

text \<open>The two flip swaps, shared by \<^verbatim>\<open>getSourceEdge\<close> and \<^verbatim>\<open>applyCropBounds\<close>.\<close>

definition flipEdgeX :: "real \<Rightarrow> edge \<Rightarrow> edge" where
  "flipEdgeX scaleX e =
     (if scaleX < 0 then (if e = Left then Right else if e = Right then Left else e) else e)"

definition flipEdgeY :: "real \<Rightarrow> edge \<Rightarrow> edge" where
  "flipEdgeY scaleY e =
     (if scaleY < 0 then (if e = Top then Bottom else if e = Bottom then Top else e) else e)"

text \<open>
  \<^verbatim>\<open>getSourceEdge(visualHandle, rotation, scaleX, scaleY)\<close>. The source reads
  \<^verbatim>\<open>rotationMaps[rot][visualHandle]\<close>; with a key outside the table that read throws,
  which is the result \<open>None\<close> here.
\<close>

definition getSourceEdge :: "edge \<Rightarrow> real \<Rightarrow> real \<Rightarrow> real \<Rightarrow> edge option" where
  "getSourceEdge visualHandle rotation scaleX scaleY =
     (case rotationMaps (snapRotation rotation) of
        None \<Rightarrow> None
      | Some m \<Rightarrow> Some (flipEdgeY scaleY (flipEdgeX scaleX (m visualHandle))))"

text \<open>The table \<^verbatim>\<open>visualMaps\<close> of \<^verbatim>\<open>applyCropBounds\<close>.\<close>

fun visualMap90 :: "edge \<Rightarrow> edge" where
  "visualMap90 Top = Right"
| "visualMap90 Right = Bottom"
| "visualMap90 Bottom = Left"
| "visualMap90 Left = Top"

fun visualMap270 :: "edge \<Rightarrow> edge" where
  "visualMap270 Top = Left"
| "visualMap270 Right = Top"
| "visualMap270 Bottom = Right"
| "visualMap270 Left = Bottom"

definition visualMaps :: "real \<Rightarrow> (edge \<Rightarrow> edge) option" where
  "visualMaps rot =
     (if rot = 0 then Some rotationMap0
      else if rot = 90 then Some visualMap90
      else if rot = 180 then Some rotationMap180
      else if rot = 270 then Some visualMap270
      else None)"

text \<open>
  The source-edge-to-visual-edge map that \<^verbatim>\<open>applyCropBounds\<close> applies to the anchor
  edge: snap the rotation, swap for the flips, then look the edge up in \<^verbatim>\<open>visualMaps\<close>.
\<close>

definition visualEdgeFor :: "edge \<Rightarrow> real \<Rightarrow> real \<Rightarrow> real \<Rightarrow> edge option" where
  "visualEdgeFor sourceEdge rotation scaleX scaleY =
     (let flippedEdge = flipEdgeY scaleY (flipEdgeX scaleX sourceEdge)
      in case visualMaps (snapRotation rotation) of
           None \<Rightarrow> None
         | Some m \<Rightarrow> Some (m flippedEdge))"

section \<open>Scene entities\<close>

text \<open>
  A decoded source raster is opaque to the editor: it is identified by a reference and
  exposes its pixel dimensions.
\<close>

record raster =
  raster_ref :: nat
  raster_width :: real
  raster_height :: real

record crop_bounds =
  ctop :: real
  cright :: real
  cbottom :: real
  cleft :: real

record rect =
  rect_x :: real
  rect_y :: real
  rect_width :: real
  rect_height :: real

text \<open>
  A placed image is a \<^verbatim>\<open>Konva.Image\<close> node with the attributes the editor attaches to
  it. \<open>node_x\<close>, \<open>node_y\<close>, \<open>node_name\<close>, \<open>node_width\<close> and \<open>node_height\<close> are the node's
  \<^verbatim>\<open>x\<close>, \<^verbatim>\<open>y\<close>, \<^verbatim>\<open>name\<close>, \<^verbatim>\<open>width\<close> and \<^verbatim>\<open>height\<close>. The node's \<^verbatim>\<open>crop\<close> rectangle only
  selects the pixels that are drawn and is determined by \<open>cropBounds\<close>; it is not kept.
\<close>

record node =
  imageId :: string
  originalImage :: raster
  originalWidth :: real
  originalHeight :: real
  node_x :: real
  node_y :: real
  scaleX :: real
  scaleY :: real
  rotation :: real
  cropBounds :: crop_bounds
  blendMode :: string
  opacity :: real
  node_name :: string
  node_width :: real
  node_height :: real
  offsetX :: real
  offsetY :: real

record handle =
  handle_x :: real
  handle_y :: real
  handle_width :: real
  handle_height :: real

definition zeroCrop :: crop_bounds where
  "zeroCrop = \<lparr>ctop = 0, cright = 0, cbottom = 0, cleft = 0\<rparr>"

subsection \<open>The client rectangle of a node\<close>

text \<open>
  \<^verbatim>\<open>node.getClientRect({ relativeTo: stage })\<close> belongs to the canvas library, not to the
  editor. It is modelled as the library computes it for an image without stroke or shadow:
  the four corners of the node's own box \<open>[0, width] \<times> [0, height]\<close> are moved by the
  offset, scaled, rotated by the rotation (in degrees) and translated to the node's
  position, and the rectangle returned is their axis-parallel bounding box.
\<close>

definition nodePoint :: "node \<Rightarrow> real \<Rightarrow> real \<Rightarrow> real \<times> real" where
  "nodePoint n px py =
     (let a = rotation n * pi / 180;
          u = (px - offsetX n) * scaleX n;
          v = (py - offsetY n) * scaleY n
      in (node_x n + u * cos a - v * sin a, node_y n + u * sin a + v * cos a))"

definition getClientRect :: "node \<Rightarrow> rect" where
  "getClientRect n =
     (let p1 = nodePoint n 0 0;
          p2 = nodePoint n (node_width n) 0;
          p3 = nodePoint n (node_width n) (node_height n);
          p4 = nodePoint n 0 (node_height n);
          minX = min (min (fst p1) (fst p2)) (min (fst p3) (fst p4));
          maxX = max (max (fst p1) (fst p2)) (max (fst p3) (fst p4));
          minY = min (min (snd p1) (snd p2)) (min (snd p3) (snd p4));
          maxY = max (max (snd p1) (snd p2)) (max (snd p3) (snd p4))
      in \<lparr>rect_x = minX, rect_y = minY, rect_width = maxX - minX, rect_height = maxY - minY\<rparr>)"

text \<open>The position of a visual edge of a client rectangle.\<close>

fun edgePosition :: "rect \<Rightarrow> edge \<Rightarrow> real" where
  "edgePosition r Top = rect_y r"
| "edgePosition r Bottom = rect_y r + rect_height r"
| "edgePosition r Left = rect_x r"
| "edgePosition r Right = rect_x r + rect_width r"

section \<open>Crop handles\<close>

text \<open>The table \<^verbatim>\<open>anchorSourceEdge\<close> of \<^verbatim>\<open>applyCropBounds\<close>.\<close>

fun oppositeEdge :: "edge \<Rightarrow> edge" where
  "oppositeEdge Left = Right"
| "oppositeEdge Right = Left"
| "oppositeEdge Top = Bottom"
| "oppositeEdge Bottom = Top"

text \<open>
  \<^verbatim>\<open>applyCropBounds(node, cropBounds, sourceEdgeBeingCropped)\<close>. The nodes of the model
  are live nodes, so the guard on \<^verbatim>\<open>node\<close> itself never fires; a dimension that is
  \<^verbatim>\<open>0\<close> is falsy and returns early. When the lookup in \<^verbatim>\<open>visualMaps\<close> misses, the source
  throws after the crop has been stored and before the position is corrected.
\<close>

definition applyCropBounds :: "node \<Rightarrow> crop_bounds \<Rightarrow> edge \<Rightarrow> node" where
  "applyCropBounds n cb sourceEdgeBeingCropped =
     (if originalWidth n = 0 \<or> originalHeight n = 0 then n
      else
        let cropWidth = originalWidth n - cleft cb - cright cb;
            cropHeight = originalHeight n - ctop cb - cbottom cb
        in if cropWidth \<le> 0 \<or> cropHeight \<le> 0 then n
           else
             let anchorSourceEdge = oppositeEdge sourceEdgeBeingCropped;
                 rectBefore = getClientRect n;
                 n1 = n\<lparr>cropBounds := cb, node_width := cropWidth, node_height := cropHeight,
                        offsetX := cropWidth / 2, offsetY := cropHeight / 2\<rparr>;
                 rectAfter = getClientRect n1
             in case visualEdgeFor anchorSourceEdge (rotation n1) (scaleX n1) (scaleY n1) of
                  None \<Rightarrow> n1
                | Some visualAnchor \<Rightarrow>
                    let dx = (case visualAnchor of
                                Left \<Rightarrow> rect_x rectBefore - rect_x rectAfter
                              | Right \<Rightarrow> (rect_x rectBefore + rect_width rectBefore)
                                         - (rect_x rectAfter + rect_width rectAfter)
                              | _ \<Rightarrow> 0);
                        dy = (case visualAnchor of
                                Top \<Rightarrow> rect_y rectBefore - rect_y rectAfter
                              | Bottom \<Rightarrow> (rect_y rectBefore + rect_height rectBefore)
                                          - (rect_y rectAfter + rect_height rectAfter)
                              | _ \<Rightarrow> 0)
                    in n1\<lparr>node_x := node_x n1 + dx, node_y := node_y n1 + dy\<rparr>)"

definition minSize :: real where
  "minSize = 20"

text \<open>
  \<^verbatim>\<open>updateCropFromHandle(node, handle, visualPosition)\<close>. The division by the absolute
  scale has no real-number value when that scale is \<open>0\<close> (the source then computes an
  infinity or \<^verbatim>\<open>NaN\<close>); the properties below are stated for nodes whose scales are not
  \<open>0\<close>. A miss in \<^verbatim>\<open>getSourceEdge\<close> throws before the node is touched.
\<close>

definition updateCropFromHandle :: "node \<Rightarrow> handle \<Rightarrow> edge \<Rightarrow> node" where
  "updateCropFromHandle n h visualPosition =
     (if originalWidth n = 0 then n
      else
        let currentCrop = cropBounds n;
            r = getClientRect n;
            absScaleX = \<bar>scaleX n\<bar>;
            absScaleY = \<bar>scaleY n\<bar>;
            hw = handle_width h;
            hh = handle_height h
        in case getSourceEdge visualPosition (rotation n) (scaleX n) (scaleY n) of
             None \<Rightarrow> n
           | Some sourceEdge \<Rightarrow>
               let visualDelta = (case visualPosition of
                                    Top \<Rightarrow> handle_y h + hh / 2 - rect_y r
                                  | Bottom \<Rightarrow> rect_y r + rect_height r - handle_y h - hh / 2
                                  | Left \<Rightarrow> handle_x h + hw / 2 - rect_x r
                                  | Right \<Rightarrow> rect_x r + rect_width r - handle_x h - hw / 2);
                   isVisualHorizontal = (visualPosition = Left \<or> visualPosition = Right);
                   scale = (if isVisualHorizontal then absScaleX else absScaleY);
                   sourceDelta = visualDelta / scale;
                   newCrop = (case sourceEdge of
                      Top \<Rightarrow> currentCrop\<lparr>ctop := max 0 (min (originalHeight n
                                 - cbottom currentCrop - minSize) (ctop currentCrop + sourceDelta))\<rparr>
                    | Bottom \<Rightarrow> currentCrop\<lparr>cbottom := max 0 (min (originalHeight n
                                 - ctop currentCrop - minSize) (cbottom currentCrop + sourceDelta))\<rparr>
                    | Left \<Rightarrow> currentCrop\<lparr>cleft := max 0 (min (originalWidth n
                                 - cright currentCrop - minSize) (cleft currentCrop + sourceDelta))\<rparr>
                    | Right \<Rightarrow> currentCrop\<lparr>cright := max 0 (min (originalWidth n
                                 - cleft currentCrop - minSize) (cright currentCrop + sourceDelta))\<rparr>)
               in applyCropBounds n newCrop sourceEdge)"

text \<open>A drag of a crop handle delivers a sequence of handle positions, one update each.\<close>

definition cropUpdates :: "node \<Rightarrow> (handle \<times> edge) list \<Rightarrow> node" where
  "cropUpdates n us = foldl (\<lambda>m (h, v). updateCropFromHandle m h v) n us"

text \<open>
  The crop invariant with the bounds that the clamp of the source enforces: every bound is
  at least \<open>0\<close> and at least 20 source pixels stay visible in each direction.
\<close>

definition boundsOk :: "real \<Rightarrow> real \<Rightarrow> crop_bounds \<Rightarrow> bool" where
  "boundsOk w h c =
     (0 \<le> ctop c \<and> 0 \<le> cright c \<and> 0 \<le> cbottom c \<and> 0 \<le> cleft c
      \<and> ctop c + cbottom c \<le> h - 20 \<and> cleft c + cright c \<le> w - 20)"

definition cropInvariant :: "node \<Rightarrow> bool" where
  "cropInvariant n = boundsOk (originalWidth n) (originalHeight n) (cropBounds n)"


text \<open>The bound that belongs to a source edge.\<close>

fun cropOf :: "crop_bounds \<Rightarrow> edge \<Rightarrow> real" where
  "cropOf c Top = ctop c"
| "cropOf c Right = cright c"
| "cropOf c Bottom = cbottom c"
| "cropOf c Left = cleft c"

text \<open>
  The geometry that every constructor of a node derives from its crop bounds
  (\<^verbatim>\<open>addImage\<close>, \<^verbatim>\<open>createKonvaImageFromState\<close>, \<^verbatim>\<open>applyCropBounds\<close> and \<^verbatim>\<open>resetCrop\<close>): the
  node's box is the cropped region and its offset is the centre of that box.
\<close>

definition croppedGeometry :: "node \<Rightarrow> bool" where
  "croppedGeometry n =
     (node_width n = originalWidth n - cleft (cropBounds n) - cright (cropBounds n)
      \<and> node_height n = originalHeight n - ctop (cropBounds n) - cbottom (cropBounds n)
      \<and> offsetX n = node_width n / 2 \<and> offsetY n = node_height n / 2)"

subsection \<open>A concrete node\<close>

text \<open>
  A 1000 by 800 source placed at the origin at half size, not rotated, not cropped; and
  three positions of its crop handles (a handle is 12 by 24 at zoom 1, the long side along
  its edge): the left handle dragged 50 screen pixels inwards, the top handle dragged 30
  screen pixels inwards, and the top handle dragged far below the image.
\<close>

definition exampleNode :: node where
  "exampleNode =
     \<lparr>imageId = ''img_a'', originalImage = \<lparr>raster_ref = 0, raster_width = 1000, raster_height = 800\<rparr>,
      originalWidth = 1000, originalHeight = 800, node_x = 0, node_y = 0,
      scaleX = 1 / 2, scaleY = 1 / 2, rotation = 0, cropBounds = zeroCrop,
      blendMode = ''source-over'', opacity = 1, node_name = ''a.png'',
      node_width = 1000, node_height = 800, offsetX = 500, offsetY = 400\<rparr>"

definition leftHandle :: handle where
  "leftHandle = \<lparr>handle_x = - 206, handle_y = - 12, handle_width = 12, handle_height = 24\<rparr>"

definition topHandle :: handle where
  "topHandle = \<lparr>handle_x = - 12, handle_y = - 176, handle_width = 24, handle_height = 12\<rparr>"


section \<open>The editor\<close>

subsection \<open>Snapshots and the editor state\<close>

text \<open>One entry of \<^verbatim>\<open>state.images\<close>, as \<^verbatim>\<open>captureState\<close> builds it.\<close>

record imgState =
  st_id :: string
  st_imageRef :: raster
  st_originalWidth :: real
  st_originalHeight :: real
  st_x :: real
  st_y :: real
  st_scaleX :: real
  st_scaleY :: real
  st_rotation :: real
  st_cropBounds :: crop_bounds
  st_blendMode :: string
  st_opacity :: real
  st_name :: string
  st_zIndex :: real

record snapshot =
  version :: nat
  st_images :: "imgState list"

record stage =
  stage_width :: real
  stage_height :: real
  stage_x :: real
  stage_y :: real
  stage_scaleX :: real
  stage_scaleY :: real

text \<open>
  The module state of the source. \<open>images\<close> are the \<^verbatim>\<open>Konva.Image\<close> children of
  \<^verbatim>\<open>imageLayer\<close> from back to front; the other children (transformer, crop handles,
  opacity label) are drawn from this state and are not kept. \<open>selected\<close> is the node held
  by the transformer, as its position in \<open>images\<close>. Both stacks grow at the end of the
  list, as \<^verbatim>\<open>push\<close> and \<^verbatim>\<open>pop\<close> do.
\<close>

record editor =
  images :: "node list"
  selected :: "nat option"
  undoStack :: "snapshot list"
  redoStack :: "snapshot list"
  imageCount :: nat
  nudgeUndoPushed :: bool
  stage :: stage

definition MAX_UNDO_LEVELS :: nat where
  "MAX_UNDO_LEVELS = 30"

definition initialEditor :: "real \<Rightarrow> real \<Rightarrow> editor" where
  "initialEditor w h =
     \<lparr>images = [], selected = None, undoStack = [], redoStack = [], imageCount = 0,
      nudgeUndoPushed = False,
      stage = \<lparr>stage_width = w, stage_height = h, stage_x = 0, stage_y = 0,
               stage_scaleX = 1, stage_scaleY = 1\<rparr>\<rparr>"

text \<open>
  \<^verbatim>\<open>getSelectedImage\<close>: the first node of the transformer, if there is one; first as a
  position in \<open>images\<close>, then as the node.
\<close>

definition selectedIndex :: "editor \<Rightarrow> nat option" where
  "selectedIndex s =
     (case selected s of
        None \<Rightarrow> None
      | Some i \<Rightarrow> if i < length (images s) then Some i else None)"

definition getSelectedImage :: "editor \<Rightarrow> node option" where
  "getSelectedImage s = map_option (\<lambda>i. images s ! i) (selectedIndex s)"

text \<open>A write through the reference that \<^verbatim>\<open>getSelectedImage\<close> returned.\<close>

definition mutateSelected :: "(node \<Rightarrow> node) \<Rightarrow> editor \<Rightarrow> editor" where
  "mutateSelected f s =
     (case selectedIndex s of
        None \<Rightarrow> s
      | Some i \<Rightarrow> s\<lparr>images := (images s)[i := f (images s ! i)]\<rparr>)"

fun findIndex :: "('a \<Rightarrow> bool) \<Rightarrow> 'a list \<Rightarrow> nat option" where
  "findIndex p [] = None"
| "findIndex p (x # xs) =
     (if p x then Some 0 else (case findIndex p xs of None \<Rightarrow> None | Some i \<Rightarrow> Some (Suc i)))"

definition findImageById :: "node list \<Rightarrow> string \<Rightarrow> nat option" where
  "findImageById imgs i = findIndex (\<lambda>child. imageId child = i) imgs"

definition getViewportCenter :: "editor \<Rightarrow> real \<times> real" where
  "getViewportCenter s =
     ((stage_width (stage s) / 2 - stage_x (stage s)) / stage_scaleX (stage s),
      (stage_height (stage s) / 2 - stage_y (stage s)) / stage_scaleY (stage s))"

subsection \<open>Capture and restore\<close>

text \<open>
  \<^verbatim>\<open>captureState\<close>. The \<^verbatim>\<open>zIndex()\<close> of a node is its position among the children of
  the layer; sorting the images by it orders them by their position in \<open>images\<close>. An
  empty blend mode is falsy and is captured as \<^verbatim>\<open>'source-over'\<close>.
\<close>

definition captureImage :: "node \<Rightarrow> nat \<Rightarrow> imgState" where
  "captureImage img index =
     \<lparr>st_id = imageId img, st_imageRef = originalImage img,
      st_originalWidth = originalWidth img, st_originalHeight = originalHeight img,
      st_x = node_x img, st_y = node_y img, st_scaleX = scaleX img, st_scaleY = scaleY img,
      st_rotation = rotation img, st_cropBounds = cropBounds img,
      st_blendMode = (if blendMode img = [] then ''source-over'' else blendMode img),
      st_opacity = opacity img, st_name = node_name img, st_zIndex = real index\<rparr>"

definition captureState :: "editor \<Rightarrow> snapshot" where
  "captureState s =
     (let sortedImages = map snd (sort_key fst (enumerate 0 (images s)))
      in \<lparr>version = 2,
          st_images = map (\<lambda>(index, img). captureImage img index) (enumerate 0 sortedImages)\<rparr>)"

text \<open>
  \<^verbatim>\<open>createKonvaImageFromState\<close>. A \<^verbatim>\<open>Konva.Image\<close> whose width and height are not set
  takes the dimensions of its raster.
\<close>

definition createKonvaImageFromState :: "imgState \<Rightarrow> node" where
  "createKonvaImageFromState imgState =
     (let cb = st_cropBounds imgState;
          cropWidth = st_originalWidth imgState - cleft cb - cright cb;
          cropHeight = st_originalHeight imgState - ctop cb - cbottom cb;
          konvaImage =
            \<lparr>imageId = st_id imgState, originalImage = st_imageRef imgState,
             originalWidth = st_originalWidth imgState,
             originalHeight = st_originalHeight imgState,
             node_x = st_x imgState, node_y = st_y imgState,
             scaleX = st_scaleX imgState, scaleY = st_scaleY imgState,
             rotation = st_rotation imgState, cropBounds = cb,
             blendMode = st_blendMode imgState, opacity = st_opacity imgState,
             node_name = st_name imgState,
             node_width = raster_width (st_imageRef imgState),
             node_height = raster_height (st_imageRef imgState),
             offsetX = 0, offsetY = 0\<rparr>
      in if 0 < cropWidth \<and> 0 < cropHeight
         then konvaImage\<lparr>node_width := cropWidth, node_height := cropHeight,
                offsetX := cropWidth / 2, offsetY := cropHeight / 2\<rparr>
         else konvaImage\<lparr>offsetX := st_originalWidth imgState / 2,
                offsetY := st_originalHeight imgState / 2\<rparr>)"

text \<open>
  \<^verbatim>\<open>restoreState\<close>: all images are destroyed and rebuilt from the snapshot in the order
  of their \<^verbatim>\<open>zIndex\<close> (the sort of the source is stable); the selection follows the id of
  the node that was selected, when an id is there and a rebuilt node carries it.
\<close>

definition restoreState :: "snapshot \<Rightarrow> editor \<Rightarrow> editor" where
  "restoreState state s =
     (let selectedId = (case getSelectedImage s of None \<Rightarrow> None | Some n \<Rightarrow> Some (imageId n));
          sortedImages = sort_key st_zIndex (st_images state);
          rebuilt = map createKonvaImageFromState sortedImages
      in s\<lparr>images := rebuilt,
           selected := (case selectedId of
                          None \<Rightarrow> None
                        | Some i \<Rightarrow> if i = [] then None else findImageById rebuilt i)\<rparr>)"

subsection \<open>Undo and redo\<close>

text \<open>The loop \<^verbatim>\<open>while (undoStack.length > MAX_UNDO_LEVELS) undoStack.shift()\<close>.\<close>

function truncateStack :: "'a list \<Rightarrow> 'a list" where
  "truncateStack st = (if MAX_UNDO_LEVELS < length st then truncateStack (tl st) else st)"
  by pat_completeness auto
termination
  by (relation "measure length") auto

definition pushUndo :: "editor \<Rightarrow> editor" where
  "pushUndo s =
     (let state = captureState s
      in s\<lparr>undoStack := truncateStack (undoStack s @ [state]), redoStack := []\<rparr>)"

definition undo :: "editor \<Rightarrow> editor" where
  "undo s =
     (if undoStack s = [] then s
      else
        let currentState = captureState s;
            s1 = s\<lparr>redoStack := redoStack s @ [currentState]\<rparr>;
            previousState = last (undoStack s1);
            s2 = s1\<lparr>undoStack := butlast (undoStack s1)\<rparr>
        in restoreState previousState s2)"

definition redo :: "editor \<Rightarrow> editor" where
  "redo s =
     (if redoStack s = [] then s
      else
        let currentState = captureState s;
            s1 = s\<lparr>undoStack := undoStack s @ [currentState]\<rparr>;
            nextState = last (redoStack s1);
            s2 = s1\<lparr>redoStack := butlast (redoStack s1)\<rparr>
        in restoreState nextState s2)"

subsection \<open>Operations on the selected image\<close>

text \<open>
  \<^verbatim>\<open>isRotatedSideways\<close>: \<^verbatim>\<open>Math.abs(node.rotation() % 180)\<close> strictly between 45 and 135.
\<close>

definition isRotatedSideways :: "node \<Rightarrow> bool" where
  "isRotatedSideways n = (let rot = \<bar>js_rem (rotation n) 180\<bar> in 45 < rot \<and> rot < 135)"

text \<open>The band as the specification words it: the rotation modulo 180 lies in (45, 135).\<close>

definition sidewaysBand :: "real \<Rightarrow> bool" where
  "sidewaysBand r = (let m = r - 180 * of_int \<lfloor>r / 180\<rfloor> in 45 < m \<and> m < 135)"

definition flipHorizontal :: "editor \<Rightarrow> editor" where
  "flipHorizontal s =
     (case getSelectedImage s of
        None \<Rightarrow> s
      | Some node \<Rightarrow>
          if isRotatedSideways node
          then mutateSelected (\<lambda>n. n\<lparr>scaleY := scaleY n * - 1\<rparr>) (pushUndo s)
          else mutateSelected (\<lambda>n. n\<lparr>scaleX := scaleX n * - 1\<rparr>) (pushUndo s))"

definition flipVertical :: "editor \<Rightarrow> editor" where
  "flipVertical s =
     (case getSelectedImage s of
        None \<Rightarrow> s
      | Some node \<Rightarrow>
          if isRotatedSideways node
          then mutateSelected (\<lambda>n. n\<lparr>scaleX := scaleX n * - 1\<rparr>) (pushUndo s)
          else mutateSelected (\<lambda>n. n\<lparr>scaleY := scaleY n * - 1\<rparr>) (pushUndo s))"

definition rotateLeft :: "editor \<Rightarrow> editor" where
  "rotateLeft s =
     (case getSelectedImage s of
        None \<Rightarrow> s
      | Some node \<Rightarrow> mutateSelected (\<lambda>n. n\<lparr>rotation := rotation n - 90\<rparr>) (pushUndo s))"

definition rotateRight :: "editor \<Rightarrow> editor" where
  "rotateRight s =
     (case getSelectedImage s of
        None \<Rightarrow> s
      | Some node \<Rightarrow> mutateSelected (\<lambda>n. n\<lparr>rotation := rotation n + 90\<rparr>) (pushUndo s))"

text \<open>
  \<^verbatim>\<open>duplicateImage\<close>; \<open>newId\<close> is what \<^verbatim>\<open>generateImageId()\<close> returns (built from the clock
  and a random number in the source).
\<close>

definition duplicateImage :: "string \<Rightarrow> editor \<Rightarrow> editor" where
  "duplicateImage newId s0 =
     (case getSelectedImage s0 of
        None \<Rightarrow> s0
      | Some node \<Rightarrow>
          let s = pushUndo s0;
              clone = node\<lparr>node_x := node_x node + 30, node_y := node_y node + 30,
                        imageId := newId\<rparr>
          in s\<lparr>images := images s @ [clone], selected := Some (length (images s)),
               imageCount := imageCount s + 1\<rparr>)"

text \<open>
  \<^verbatim>\<open>node.moveToTop()\<close> and \<^verbatim>\<open>node.moveToBottom()\<close> for the image at position \<open>i\<close>; the
  transformer keeps the node it holds, so the selection follows the move.
\<close>

definition moveToTopAt :: "nat \<Rightarrow> editor \<Rightarrow> editor" where
  "moveToTopAt i s =
     (let imgs = images s
      in s\<lparr>images := take i imgs @ drop (Suc i) imgs @ [imgs ! i],
           selected := map_option (\<lambda>j. if j = i then length imgs - 1
                                         else if i < j then j - 1 else j) (selected s)\<rparr>)"

definition moveToBottomAt :: "nat \<Rightarrow> editor \<Rightarrow> editor" where
  "moveToBottomAt i s =
     (let imgs = images s
      in s\<lparr>images := imgs ! i # take i imgs @ drop (Suc i) imgs,
           selected := map_option (\<lambda>j. if j = i then 0
                                         else if j < i then Suc j else j) (selected s)\<rparr>)"

definition bringToTop :: "editor \<Rightarrow> editor" where
  "bringToTop s =
     (case selectedIndex s of
        None \<Rightarrow> s
      | Some i \<Rightarrow> moveToTopAt i (pushUndo s))"

definition sendToBottom :: "editor \<Rightarrow> editor" where
  "sendToBottom s =
     (case selectedIndex s of
        None \<Rightarrow> s
      | Some i \<Rightarrow> moveToBottomAt i (pushUndo s))"

definition deleteSelected :: "editor \<Rightarrow> editor" where
  "deleteSelected s0 =
     (case selectedIndex s0 of
        None \<Rightarrow> s0
      | Some i \<Rightarrow>
          let s = pushUndo s0
          in s\<lparr>images := take i (images s) @ drop (Suc i) (images s), selected := None\<rparr>)"

definition blendModes :: "(string \<times> string) list" where
  "blendModes =
     [(''source-over'', ''Normal''), (''screen'', ''Screen''), (''multiply'', ''Multiply''),
      (''lighten'', ''Lighten''), (''darken'', ''Darken''), (''overlay'', ''Overlay''),
      (''soft-light'', ''Soft Light''), (''difference'', ''Difference'')]"

definition setBlendMode :: "string \<Rightarrow> editor \<Rightarrow> editor" where
  "setBlendMode mode s =
     (case getSelectedImage s of
        None \<Rightarrow> s
      | Some node \<Rightarrow> mutateSelected (\<lambda>n. n\<lparr>blendMode := mode\<rparr>) (pushUndo s))"

text \<open>
  \<^verbatim>\<open>cycleBlendMode\<close>: \<^verbatim>\<open>findIndex\<close> gives \<open>-1\<close> for a mode that is not in the table, and the
  next index is then \<open>0\<close>.
\<close>

definition cycleBlendMode :: "editor \<Rightarrow> editor" where
  "cycleBlendMode s =
     (case getSelectedImage s of
        None \<Rightarrow> s
      | Some node \<Rightarrow>
          let currentMode = (if blendMode node = [] then ''source-over'' else blendMode node);
              nextIndex = (case findIndex (\<lambda>m. fst m = currentMode) blendModes of
                             None \<Rightarrow> 0
                           | Some currentIndex \<Rightarrow> (currentIndex + 1) mod length blendModes);
              nextMode = blendModes ! nextIndex
          in setBlendMode (fst nextMode) s)"

definition setOpacity :: "real \<Rightarrow> editor \<Rightarrow> editor" where
  "setOpacity percent s =
     (case getSelectedImage s of
        None \<Rightarrow> s
      | Some node \<Rightarrow>
          mutateSelected (\<lambda>n. n\<lparr>opacity := max 0 (min 100 percent) / 100\<rparr>) (pushUndo s))"

definition resetCrop :: "editor \<Rightarrow> editor" where
  "resetCrop s =
     (case getSelectedImage s of
        None \<Rightarrow> s
      | Some node \<Rightarrow>
          mutateSelected (\<lambda>n. n\<lparr>cropBounds := zeroCrop, node_width := originalWidth n,
                                 node_height := originalHeight n,
                                 offsetX := originalWidth n / 2,
                                 offsetY := originalHeight n / 2\<rparr>) (pushUndo s))"

subsection \<open>Adding an image\<close>

function decimal :: "nat \<Rightarrow> string" where
  "decimal n = (if n < 10 then [char_of (48 + n)]
                else decimal (n div 10) @ [char_of (48 + n mod 10)])"
  by pat_completeness auto
termination
  by (relation "measure id") auto

text \<open>
  The \<^verbatim>\<open>onload\<close> callback of \<^verbatim>\<open>addImage\<close>, with the decoded raster, the file name and
  the id that \<^verbatim>\<open>generateImageId()\<close> returns.
\<close>

definition addImage :: "raster \<Rightarrow> string \<Rightarrow> string \<Rightarrow> editor \<Rightarrow> editor" where
  "addImage img fileName newId s0 =
     (let s = pushUndo s0;
          maxDim = min (stage_width (stage s)) (stage_height (stage s)) * (6 / 10);
          scale = (if maxDim < raster_width img \<or> maxDim < raster_height img
                   then maxDim / max (raster_width img) (raster_height img) else 1);
          center = getViewportCenter s;
          konvaImage =
            \<lparr>imageId = newId, originalImage = img,
             originalWidth = raster_width img, originalHeight = raster_height img,
             node_x = fst center + real (imageCount s) * 30,
             node_y = snd center + real (imageCount s) * 30,
             scaleX = scale, scaleY = scale, rotation = 0, cropBounds = zeroCrop,
             blendMode = ''source-over'', opacity = 1,
             node_name = (if fileName = [] then ''image-'' @ decimal (imageCount s)
                          else fileName),
             node_width = raster_width img, node_height = raster_height img,
             offsetX = raster_width img / 2, offsetY = raster_height img / 2\<rparr>
      in s\<lparr>images := images s @ [konvaImage], selected := Some (length (images s)),
           imageCount := imageCount s + 1\<rparr>)"

subsection \<open>Pointer and keyboard gestures\<close>

text \<open>
  The handlers that \<^verbatim>\<open>setupImageHandlers\<close>, \<^verbatim>\<open>createCropHandles\<close>, the transformer and the
  key listener install. What the canvas library does between the start of a gesture and
  its end (moving the dragged node, resizing the node held by the transformer) is given
  by the values the node ends up with.
\<close>

definition clickImage :: "nat \<Rightarrow> editor \<Rightarrow> editor" where
  "clickImage i s = (if i < length (images s) then s\<lparr>selected := Some i\<rparr> else s)"

definition clickStage :: "editor \<Rightarrow> editor" where
  "clickStage s = s\<lparr>selected := None\<rparr>"

definition doubleClickImage :: "nat \<Rightarrow> editor \<Rightarrow> editor" where
  "doubleClickImage i s = (if i < length (images s) then moveToTopAt i (pushUndo s) else s)"

definition dragImage :: "nat \<Rightarrow> real \<Rightarrow> real \<Rightarrow> editor \<Rightarrow> editor" where
  "dragImage i px py s0 =
     (if i < length (images s0)
      then let s = pushUndo s0
           in s\<lparr>images := (images s)[i := (images s ! i)\<lparr>node_x := px, node_y := py\<rparr>]\<rparr>
      else s0)"

definition transformSelected :: "real \<Rightarrow> real \<Rightarrow> real \<Rightarrow> real \<Rightarrow> editor \<Rightarrow> editor" where
  "transformSelected px py sx sy s =
     (case getSelectedImage s of
        None \<Rightarrow> s
      | Some node \<Rightarrow>
          mutateSelected (\<lambda>n. n\<lparr>node_x := px, node_y := py, scaleX := sx, scaleY := sy\<rparr>)
            (pushUndo s))"

text \<open>
  A drag of the crop handle at the visual edge \<open>v\<close>: \<^verbatim>\<open>dragstart\<close> pushes the snapshot and
  every \<^verbatim>\<open>dragmove\<close> calls \<^verbatim>\<open>updateCropFromHandle\<close> with the handle where the pointer
  took it. Handles exist only for the selected node.
\<close>

definition cropDrag :: "edge \<Rightarrow> handle list \<Rightarrow> editor \<Rightarrow> editor" where
  "cropDrag v hs s =
     (case getSelectedImage s of
        None \<Rightarrow> s
      | Some node \<Rightarrow>
          mutateSelected (\<lambda>n. cropUpdates n (map (\<lambda>h. (h, v)) hs)) (pushUndo s))"

datatype axis = AxisX | AxisY

definition handleNudge :: "axis \<Rightarrow> real \<Rightarrow> bool \<Rightarrow> editor \<Rightarrow> editor" where
  "handleNudge ax amount shouldSnap s0 =
     (case getSelectedImage s0 of
        None \<Rightarrow> s0
      | Some node \<Rightarrow>
          let s = (if \<not> nudgeUndoPushed s0 then (pushUndo s0)\<lparr>nudgeUndoPushed := True\<rparr>
                   else s0)
          in mutateSelected
               (\<lambda>n. let current = (if ax = AxisX then node_x n else node_y n);
                         newVal = (if shouldSnap then js_round (current + amount)
                                   else current + amount)
                     in if ax = AxisX then n\<lparr>node_x := newVal\<rparr> else n\<lparr>node_y := newVal\<rparr>) s)"

text \<open>The idle timer of the nudge gesture, 500 ms after the last nudge.\<close>

definition nudgeIdle :: "editor \<Rightarrow> editor" where
  "nudgeIdle s = s\<lparr>nudgeUndoPushed := False\<rparr>"

subsection \<open>Loading a project archive\<close>

text \<open>
  A \<^verbatim>\<open>.montage\<close> file as the archive library presents it: it may fail to unpack;
  \<^verbatim>\<open>project.json\<close> may be absent or may fail to parse; each entry of its \<^verbatim>\<open>images\<close> array
  names a file of the \<^verbatim>\<open>images\<close> folder, which may be absent or may fail to decode. The
  fields that version-1 archives lack are optional.
\<close>

record imgData =
  d_filename :: string
  d_id :: "string option"
  d_x :: real
  d_y :: real
  d_scaleX :: real
  d_scaleY :: real
  d_rotation :: real
  d_cropBounds :: "crop_bounds option"
  d_blendMode :: "string option"
  d_opacity :: "real option"
  d_originalWidth :: "real option"
  d_originalHeight :: "real option"
  d_name :: "string option"
  d_zIndex :: "real option"

datatype blob = Decodable raster | Undecodable

datatype projectJson = Malformed | Parsed "imgData list"

record archive =
  projectFile :: "projectJson option"
  imageFiles :: "string \<Rightarrow> blob option"

datatype montageFile = NotAnArchive | Zip archive

datatype loadError = ArchiveError | MissingProjectJson | JsonError | FailedToLoadImage string

text \<open>
  The object that \<^verbatim>\<open>deserializeStateFromZip\<close> pushes for entry \<open>i\<close> once its raster is
  decoded, with the defaults for absent (or falsy) fields; \<open>freshId\<close> is what
  \<^verbatim>\<open>generateImageId()\<close> returns when the entry has no id.
\<close>

definition loadedEntry :: "imgData \<Rightarrow> raster \<Rightarrow> string \<Rightarrow> nat \<Rightarrow> imgState" where
  "loadedEntry imgData imageRef freshId i =
     \<lparr>st_id = (case d_id imgData of
                 None \<Rightarrow> freshId
               | Some v \<Rightarrow> if v = [] then freshId else v),
      st_imageRef = imageRef,
      st_originalWidth = (case d_originalWidth imgData of
                            None \<Rightarrow> raster_width imageRef
                          | Some w \<Rightarrow> if w = 0 then raster_width imageRef else w),
      st_originalHeight = (case d_originalHeight imgData of
                             None \<Rightarrow> raster_height imageRef
                           | Some h \<Rightarrow> if h = 0 then raster_height imageRef else h),
      st_x = d_x imgData, st_y = d_y imgData,
      st_scaleX = d_scaleX imgData, st_scaleY = d_scaleY imgData,
      st_rotation = d_rotation imgData,
      st_cropBounds = (case d_cropBounds imgData of None \<Rightarrow> zeroCrop | Some cb \<Rightarrow> cb),
      st_blendMode = (case d_blendMode imgData of
                        None \<Rightarrow> ''source-over''
                      | Some m \<Rightarrow> if m = [] then ''source-over'' else m),
      st_opacity = (case d_opacity imgData of None \<Rightarrow> 1 | Some v \<Rightarrow> v),
      st_name = (case d_name imgData of
                   None \<Rightarrow> ''image-'' @ decimal i
                 | Some v \<Rightarrow> if v = [] then ''image-'' @ decimal i else v),
      st_zIndex = (case d_zIndex imgData of None \<Rightarrow> real i | Some z \<Rightarrow> z)\<rparr>"

text \<open>
  The loop of \<^verbatim>\<open>deserializeStateFromZip\<close> from entry \<open>i\<close> on. \<open>gen\<close> lists the results of
  the successive calls of \<^verbatim>\<open>generateImageId()\<close> and \<open>c\<close> counts the calls made so far. An
  entry whose file is absent is skipped with a console warning (\<^verbatim>\<open>continue\<close>); a file
  that does not decode rejects, which throws.
\<close>

fun deserializeImages ::
  "(nat \<Rightarrow> string) \<Rightarrow> (string \<Rightarrow> blob option) \<Rightarrow> nat \<Rightarrow> nat \<Rightarrow> imgData list
     \<Rightarrow> loadError + (imgState list \<times> nat)" where
  "deserializeImages gen files i c [] = Inr ([], c)"
| "deserializeImages gen files i c (imgData # rest) =
     (case files (d_filename imgData) of
        None \<Rightarrow> deserializeImages gen files (Suc i) c rest
      | Some Undecodable \<Rightarrow> Inl (FailedToLoadImage (d_filename imgData))
      | Some (Decodable imageRef) \<Rightarrow>
         (let needsId = (case d_id imgData of None \<Rightarrow> True | Some v \<Rightarrow> v = []);
              entry = loadedEntry imgData imageRef (gen c) i
          in (case deserializeImages gen files (Suc i) (if needsId then Suc c else c) rest of
                Inl err \<Rightarrow> Inl err
              | Inr (imgs, c') \<Rightarrow> Inr (entry # imgs, c'))))"

definition deserializeStateFromZip ::
  "(nat \<Rightarrow> string) \<Rightarrow> montageFile \<Rightarrow> loadError + (snapshot \<times> nat)" where
  "deserializeStateFromZip gen file =
     (case file of
        NotAnArchive \<Rightarrow> Inl ArchiveError
      | Zip z \<Rightarrow>
          (case projectFile z of
             None \<Rightarrow> Inl MissingProjectJson
           | Some Malformed \<Rightarrow> Inl JsonError
           | Some (Parsed projectData) \<Rightarrow>
               (case deserializeImages gen (imageFiles z) 0 0 projectData of
                  Inl err \<Rightarrow> Inl err
                | Inr (imgs, c) \<Rightarrow> Inr (\<lparr>version = 2, st_images = imgs\<rparr>, c))))"

text \<open>
  The centre that \<^verbatim>\<open>loadProject\<close> computes from the positions of the loaded entries: the
  midpoint between the least and the greatest coordinate. (For no entries the source
  computes with infinities; the offsets are then applied to nothing.)
\<close>

definition savedCenter :: "real list \<Rightarrow> real" where
  "savedCenter vs = (if vs = [] then 0 else (Min (set vs) + Max (set vs)) / 2)"

text \<open>
  \<^verbatim>\<open>loadProject\<close>. The result carries the editor and, when the \<^verbatim>\<open>catch\<close> branch ran, the
  error that the alert reports.
\<close>

definition loadProject ::
  "(nat \<Rightarrow> string) \<Rightarrow> montageFile \<Rightarrow> editor \<Rightarrow> editor \<times> loadError option" where
  "loadProject gen file s =
     (case deserializeStateFromZip gen file of
        Inl err \<Rightarrow> (s, Some err)
      | Inr (loadedState, c) \<Rightarrow>
          let loaded = st_images loadedState;
              center = getViewportCenter s;
              offsetX = fst center - savedCenter (map st_x loaded);
              offsetY = snd center - savedCenter (map st_y loaded);
              moved = map (\<lambda>(i, imgState).
                             imgState\<lparr>st_x := st_x imgState + offsetX,
                                      st_y := st_y imgState + offsetY,
                                      st_id := gen (c + i)\<rparr>) (enumerate 0 loaded);
              s1 = pushUndo s;
              currentState = captureState s1;
              maxCurrentZIndex = (if st_images currentState = [] then - 1
                                  else Max (set (map st_zIndex (st_images currentState))));
              placed = map (\<lambda>(i, imgState).
                              imgState\<lparr>st_zIndex := maxCurrentZIndex + 1 + real i\<rparr>)
                         (enumerate 0 moved);
              mergedState = \<lparr>version = 2, st_images = st_images currentState @ placed\<rparr>;
              s2 = restoreState mergedState s1
          in (s2\<lparr>imageCount := imageCount s2 + length loaded\<rparr>, None))"

subsection \<open>Actions\<close>

text \<open>Everything the user can do to the editor, and the timer of the nudge gesture.\<close>

datatype action =
    AddImage raster string string
  | ClickImage nat
  | ClickStage
  | DoubleClickImage nat
  | DragImage nat real real
  | TransformSelected real real real real
  | CropDrag edge "handle list"
  | ResetCrop
  | FlipHorizontal
  | FlipVertical
  | RotateLeft
  | RotateRight
  | DuplicateImage string
  | BringToTop
  | SendToBottom
  | DeleteSelected
  | SetBlendMode nat
  | CycleBlendMode
  | SetOpacity real
  | Nudge axis real bool
  | NudgeIdle
  | LoadProject "nat \<Rightarrow> string" montageFile
  | Undo
  | Redo

text \<open>
  \<open>SetBlendMode k\<close> is a click on the \<open>k\<close>-th blend entry of the context menu, which is
  built from \<^verbatim>\<open>blendModes\<close>.
\<close>

fun perform :: "action \<Rightarrow> editor \<Rightarrow> editor" where
  "perform (AddImage img fileName newId) s = addImage img fileName newId s"
| "perform (ClickImage i) s = clickImage i s"
| "perform ClickStage s = clickStage s"
| "perform (DoubleClickImage i) s = doubleClickImage i s"
| "perform (DragImage i px py) s = dragImage i px py s"
| "perform (TransformSelected px py sx sy) s = transformSelected px py sx sy s"
| "perform (CropDrag v hs) s = cropDrag v hs s"
| "perform ResetCrop s = resetCrop s"
| "perform FlipHorizontal s = flipHorizontal s"
| "perform FlipVertical s = flipVertical s"
| "perform RotateLeft s = rotateLeft s"
| "perform RotateRight s = rotateRight s"
| "perform (DuplicateImage newId) s = duplicateImage newId s"
| "perform BringToTop s = bringToTop s"
| "perform SendToBottom s = sendToBottom s"
| "perform DeleteSelected s = deleteSelected s"
| "perform (SetBlendMode k) s =
     (if k < length blendModes then setBlendMode (fst (blendModes ! k)) s else s)"
| "perform CycleBlendMode s = cycleBlendMode s"
| "perform (SetOpacity percent) s = setOpacity percent s"
| "perform (Nudge ax amount shouldSnap) s = handleNudge ax amount shouldSnap s"
| "perform NudgeIdle s = nudgeIdle s"
| "perform (LoadProject gen file) s = fst (loadProject gen file s)"
| "perform Undo s = undo s"
| "perform Redo s = redo s"

definition run :: "action list \<Rightarrow> editor \<Rightarrow> editor" where
  "run as s = fold perform as s"




text \<open>
  Every image carries a blend mode: \<^verbatim>\<open>addImage\<close>, the blend menu and the loader store
  non-empty strings only.
\<close>

definition blendModesSet :: "editor \<Rightarrow> bool" where
  "blendModesSet s = (\<forall>n \<in> set (images s). blendMode n \<noteq> [])"

subsection \<open>Auxiliary notions for the properties\<close>

text \<open>The two stacks together hold at most \<^verbatim>\<open>MAX_UNDO_LEVELS\<close> snapshots.\<close>

definition stackBound :: "editor \<Rightarrow> bool" where
  "stackBound s = (length (undoStack s) + length (redoStack s) \<le> MAX_UNDO_LEVELS)"

text \<open>
  What the two passes of \<^verbatim>\<open>loadProject\<close> over the loaded entries leave in entry \<open>i\<close>: the
  position moved by the offset, the id replaced by the \<open>i\<close>-th id generated after the \<open>c\<close>
  calls of the deserialisation, and the z-index counted on from the \<open>n\<close> images of the
  scene.
\<close>

definition placedEntry :: "(nat \<Rightarrow> string) \<Rightarrow> nat \<Rightarrow> real \<Rightarrow> real \<Rightarrow> nat \<Rightarrow> nat \<Rightarrow> imgState \<Rightarrow> imgState" where
  "placedEntry gen c ox oy n i e =
     e\<lparr>st_x := st_x e + ox, st_y := st_y e + oy, st_id := gen (c + i),
       st_zIndex := real n + real i\<rparr>"

text \<open>Every snapshot on the two stacks carries a blend mode for every image.\<close>

definition snapshotsSet :: "editor \<Rightarrow> bool" where
  "snapshotsSet s =
     (\<forall>st \<in> set (undoStack s) \<union> set (redoStack s). \<forall>e \<in> set (st_images st). st_blendMode e \<noteq> [])"

text \<open>The concrete node alone on the stage of a new editor, and selected.\<close>

definition exampleEditor :: editor where
  "exampleEditor = (initialEditor 800 600)\<lparr>images := [exampleNode], selected := Some 0\<rparr>"

subsection \<open>A concrete archive\<close>







section \<open>Properties of the rotation snap\<close>

lemma js_rem_nonneg:
  assumes "0 \<le> a" and "0 < b"
  shows "0 \<le> js_rem a b \<and> js_rem a b < b"
proof -
  have q: "0 \<le> a / b" using assms by simp
  have f: "js_trunc (a / b) = \<lfloor>a / b\<rfloor>" using q by (simp add: js_trunc_def)
  have lo: "of_int \<lfloor>a / b\<rfloor> * b \<le> a"
    using assms(2) floor_divide_lower by blast
  have hi: "a < (of_int \<lfloor>a / b\<rfloor> + 1) * b"
    using assms(2) floor_divide_upper by blast
  show ?thesis using lo hi by (simp add: js_rem_def f algebra_simps)
qed

lemma js_rem_neg:
  assumes "a < 0" and "0 < b"
  shows "- b < js_rem a b \<and> js_rem a b \<le> 0"
proof -
  have q: "a / b < 0" using assms by (simp add: divide_neg_pos)
  have f: "js_trunc (a / b) = \<lceil>a / b\<rceil>" using q by (simp add: js_trunc_def)
  have lo: "a \<le> of_int \<lceil>a / b\<rceil> * b"
    using assms(2) ceiling_divide_upper by blast
  have hi: "(of_int \<lceil>a / b\<rceil> - 1) * b < a"
    using assms(2) ceiling_divide_lower by blast
  show ?thesis using lo hi by (simp add: js_rem_def f algebra_simps)
qed

lemma js_rem_abs_less:
  assumes "0 < b"
  shows "- b < js_rem a b \<and> js_rem a b < b"
proof (cases "a < 0")
  case True
  then show ?thesis using js_rem_neg [OF True assms] assms by linarith
next
  case False
  then show ?thesis using js_rem_nonneg [of a b] assms by linarith
qed

lemma js_rem_small:
  assumes "0 \<le> a" and "a < b"
  shows "js_rem a b = a"
proof -
  have "0 \<le> a / b" and "a / b < 1" using assms by simp_all
  then have "\<lfloor>a / b\<rfloor> = 0" by linarith
  then show ?thesis using \<open>0 \<le> a / b\<close> by (simp add: js_rem_def js_trunc_def)
qed

lemma js_rem_self: "b \<noteq> 0 \<Longrightarrow> js_rem b b = 0"
  by (simp add: js_rem_def js_trunc_def)

lemma snapRotation_cases:
  "snapRotation r = 0 \<or> snapRotation r = 90 \<or> snapRotation r = 180 \<or> snapRotation r = 270"
proof -
  define a where "a = js_rem r 360"
  define b where "b = js_rem (a + 360) 360"
  define k where "k = \<lfloor>b / 90 + 1 / 2\<rfloor>"
  have a: "- 360 < a \<and> a < 360"
    unfolding a_def using js_rem_abs_less [of 360 r] by simp
  have b: "0 \<le> b \<and> b < 360"
    unfolding b_def using js_rem_nonneg [of "a + 360" 360] a by simp
  have k0: "0 \<le> k" unfolding k_def using b by simp
  have "b / 90 + 1 / 2 < 5" using b by simp
  then have k4: "k < 5" unfolding k_def by linarith
  have s: "snapRotation r = js_rem (of_int k * 90) 360"
    by (simp add: snapRotation_def Let_def js_round_def a_def b_def k_def)
  from k0 k4 have "k = 0 \<or> k = 1 \<or> k = 2 \<or> k = 3 \<or> k = 4" by arith
  then show ?thesis
  proof (elim disjE)
    assume "k = 0" then show ?thesis using s js_rem_small [of 0 360] by simp
  next
    assume "k = 1" then show ?thesis using s js_rem_small [of 90 360] by simp
  next
    assume "k = 2" then show ?thesis using s js_rem_small [of 180 360] by simp
  next
    assume "k = 3" then show ?thesis using s js_rem_small [of 270 360] by simp
  next
    assume "k = 4" then show ?thesis using s js_rem_self [of 360] by simp
  qed
qed

lemma visualMap_rotationMap:
  "rotationMap0 (rotationMap0 e) = e"
  "visualMap90 (rotationMap90 e) = e"
  "rotationMap180 (rotationMap180 e) = e"
  "visualMap270 (rotationMap270 e) = e"
  "rotationMap90 (visualMap90 e) = e"
  "rotationMap270 (visualMap270 e) = e"
  by (cases e; simp)+

lemma flipEdge_involution:
  "flipEdgeX sx (flipEdgeX sx e) = e"
  "flipEdgeY sy (flipEdgeY sy e) = e"
  by (cases e; simp add: flipEdgeX_def flipEdgeY_def)+

lemma flipEdge_undo:
  "flipEdgeY sy (flipEdgeX sx (flipEdgeY sy (flipEdgeX sx e))) = e"
  by (cases e; simp add: flipEdgeX_def flipEdgeY_def)

text \<open>
  Claim C1. For every rotation (which both maps snap to one of 0, 90, 180, 270) and every
  pair of scale signs, the map from a visual edge to its source edge (\<open>getSourceEdge\<close>)
  and the map from a source edge to its visual edge used for anchoring
  (\<open>visualEdgeFor\<close>) are inverse to each other: composed in either order they give back
  the edge they started from, for each of the four edges.
\<close>

theorem edge_maps_mutually_inverse:
  "Option.bind (getSourceEdge e r sx sy)
       (\<lambda>s. visualEdgeFor s r sx sy) = Some e
   \<and> Option.bind (visualEdgeFor e r sx sy)
       (\<lambda>v. getSourceEdge v r sx sy) = Some e"
  using snapRotation_cases [of r]
  by (auto simp add: getSourceEdge_def visualEdgeFor_def rotationMaps_def visualMaps_def
      Let_def visualMap_rotationMap flipEdge_involution flipEdge_undo)

text \<open>
  Claim C10. \<open>getSourceEdge\<close> is total: for every real rotation, negative or of any
  magnitude, the snapped rotation is one of 0, 90, 180, 270 (a remainder that rounds up to
  360 is taken back to 0), so the table lookup never misses and an edge is returned for
  every visual edge and every pair of scales.
\<close>

theorem getSourceEdge_total:
  "snapRotation r \<in> {0, 90, 180, 270}
   \<and> rotationMaps (snapRotation r) \<noteq> None
   \<and> (\<exists>s. getSourceEdge e r sx sy = Some s)"
  using snapRotation_cases [of r]
  by (auto simp add: getSourceEdge_def rotationMaps_def)


lemma getSourceEdge_defined: "\<exists>s. getSourceEdge v r sx sy = Some s"
  using snapRotation_cases [of r]
  by (auto simp add: getSourceEdge_def rotationMaps_def)

section \<open>Properties of the crop clamp\<close>

lemma applyCropBounds_keeps:
  "originalWidth (applyCropBounds n cb e) = originalWidth n"
  "originalHeight (applyCropBounds n cb e) = originalHeight n"
  "scaleX (applyCropBounds n cb e) = scaleX n"
  "scaleY (applyCropBounds n cb e) = scaleY n"
  "rotation (applyCropBounds n cb e) = rotation n"
  by (simp_all add: applyCropBounds_def Let_def split: option.splits)

lemma applyCropBounds_cropBounds:
  "cropBounds (applyCropBounds n cb e) = cb \<or> cropBounds (applyCropBounds n cb e) = cropBounds n"
  by (simp add: applyCropBounds_def Let_def split: option.splits)

lemma boundsOk_clamp:
  assumes "boundsOk w h c"
  shows "boundsOk w h (c\<lparr>ctop := max 0 (min (h - cbottom c - minSize) (ctop c + d))\<rparr>)"
    and "boundsOk w h (c\<lparr>cbottom := max 0 (min (h - ctop c - minSize) (cbottom c + d))\<rparr>)"
    and "boundsOk w h (c\<lparr>cleft := max 0 (min (w - cright c - minSize) (cleft c + d))\<rparr>)"
    and "boundsOk w h (c\<lparr>cright := max 0 (min (w - cleft c - minSize) (cright c + d))\<rparr>)"
  using assms by (auto simp add: boundsOk_def minSize_def)

lemma applyCropBounds_invariant:
  assumes "cropInvariant n" and "boundsOk (originalWidth n) (originalHeight n) cb"
  shows "cropInvariant (applyCropBounds n cb e)"
  using assms applyCropBounds_cropBounds [of n cb e]
  by (auto simp add: cropInvariant_def applyCropBounds_keeps)

lemma updateCropFromHandle_invariant:
  assumes "cropInvariant n"
  shows "cropInvariant (updateCropFromHandle n h v)"
proof (cases "originalWidth n = 0")
  case True
  then show ?thesis using assms by (simp add: updateCropFromHandle_def)
next
  case False
  obtain s where s: "getSourceEdge v (rotation n) (scaleX n) (scaleY n) = Some s"
    using getSourceEdge_defined by blast
  have b: "boundsOk (originalWidth n) (originalHeight n) (cropBounds n)"
    using assms by (simp add: cropInvariant_def)
  show ?thesis
    using False s assms boundsOk_clamp [OF b]
    by (cases s) (simp_all add: updateCropFromHandle_def Let_def applyCropBounds_invariant)
qed

lemma updateCropFromHandle_keeps:
  "originalWidth (updateCropFromHandle n h v) = originalWidth n"
  "originalHeight (updateCropFromHandle n h v) = originalHeight n"
  "scaleX (updateCropFromHandle n h v) = scaleX n"
  "scaleY (updateCropFromHandle n h v) = scaleY n"
  "rotation (updateCropFromHandle n h v) = rotation n"
  by (simp_all add: updateCropFromHandle_def Let_def applyCropBounds_keeps split: option.splits)

lemma cropUpdates_snoc:
  "cropUpdates n (us @ [(h, v)]) = updateCropFromHandle (cropUpdates n us) h v"
  by (simp add: cropUpdates_def)

lemma cropUpdates_invariant:
  "cropInvariant n \<Longrightarrow> cropInvariant (cropUpdates n us)"
proof (induction us rule: rev_induct)
  case Nil
  then show ?case by (simp add: cropUpdates_def)
next
  case (snoc u us)
  obtain h v where u: "u = (h, v)" by (cases u)
  show ?case
    unfolding u cropUpdates_snoc
    by (rule updateCropFromHandle_invariant) (rule snoc.IH [OF snoc.prems])
qed

lemma cropUpdates_keeps:
  "originalWidth (cropUpdates n us) = originalWidth n
   \<and> originalHeight (cropUpdates n us) = originalHeight n"
proof (induction us rule: rev_induct)
  case Nil
  then show ?case by (simp add: cropUpdates_def)
next
  case (snoc u us)
  obtain h v where u: "u = (h, v)" by (cases u)
  show ?case
    unfolding u cropUpdates_snoc using snoc.IH
    by (simp add: updateCropFromHandle_keeps)
qed

lemma cos_sin_upright: "cos (0 * pi / 180) = 1" "sin (0 * pi / 180) = 0"
  by simp_all

text \<open>
  Claim C3. Start from a node whose crop bounds satisfy the invariant (every bound at
  least 0, top + bottom at most the source height less 20, left + right at most the source
  width less 20) and whose scales are not 0. After every update of a sequence of
  crop-handle updates, whatever the handles, their positions and the rotation and flips
  of the node, the crop bounds satisfy the invariant again.
\<close>

theorem crop_updates_keep_invariant:
  assumes "scaleX n \<noteq> 0" and "scaleY n \<noteq> 0" and "cropInvariant n"
  shows "\<forall>k. let c = cropBounds (cropUpdates n (take k us))
             in 0 \<le> ctop c \<and> 0 \<le> cright c \<and> 0 \<le> cbottom c \<and> 0 \<le> cleft c
                \<and> ctop c + cbottom c \<le> originalHeight n - 20
                \<and> cleft c + cright c \<le> originalWidth n - 20"
proof
  fix k
  have inv: "cropInvariant (cropUpdates n (take k us))"
    by (rule cropUpdates_invariant [OF assms(3)])
  have keep: "originalWidth (cropUpdates n (take k us)) = originalWidth n
      \<and> originalHeight (cropUpdates n (take k us)) = originalHeight n"
    by (rule cropUpdates_keeps)
  show "let c = cropBounds (cropUpdates n (take k us))
        in 0 \<le> ctop c \<and> 0 \<le> cright c \<and> 0 \<le> cbottom c \<and> 0 \<le> cleft c
           \<and> ctop c + cbottom c \<le> originalHeight n - 20
           \<and> cleft c + cright c \<le> originalWidth n - 20"
    using inv keep by (simp add: cropInvariant_def boundsOk_def Let_def)
qed


theorem crop_updates_keep_invariant_witness:
  "scaleX exampleNode \<noteq> 0 \<and> scaleY exampleNode \<noteq> 0 \<and> cropInvariant exampleNode
   \<and> (let c = cropBounds (cropUpdates exampleNode [(leftHandle, Left), (topHandle, Top)])
      in 0 \<le> ctop c \<and> 0 \<le> cright c \<and> 0 \<le> cbottom c \<and> 0 \<le> cleft c
         \<and> ctop c + cbottom c \<le> originalHeight exampleNode - 20
         \<and> cleft c + cright c \<le> originalWidth exampleNode - 20)"
proof -
  have h1: "scaleX exampleNode \<noteq> 0" and h2: "scaleY exampleNode \<noteq> 0"
    by (simp_all add: exampleNode_def)
  have h3: "cropInvariant exampleNode"
    by (simp add: exampleNode_def cropInvariant_def boundsOk_def zeroCrop_def)
  from crop_updates_keep_invariant [OF h1 h2 h3, of "[(leftHandle, Left), (topHandle, Top)]"]
  have "let c = cropBounds (cropUpdates exampleNode
                  (take 2 [(leftHandle, Left), (topHandle, Top)]))
        in 0 \<le> ctop c \<and> 0 \<le> cright c \<and> 0 \<le> cbottom c \<and> 0 \<le> cleft c
           \<and> ctop c + cbottom c \<le> originalHeight exampleNode - 20
           \<and> cleft c + cright c \<le> originalWidth exampleNode - 20"
    by (rule spec)
  then show ?thesis using h1 h2 h3 by simp
qed

section \<open>The anchor correction of an upright node\<close>

lemma snapRotation_zero: "snapRotation 0 = 0"
  by (simp add: snapRotation_def js_rem_def js_trunc_def js_round_def)

lemma nodePoint_upright:
  "rotation n = 0 \<Longrightarrow>
   nodePoint n px py = (node_x n + (px - offsetX n) * scaleX n, node_y n + (py - offsetY n) * scaleY n)"
  by (simp add: nodePoint_def Let_def)

lemma span_min:
  fixes s w c o' :: real
  assumes "0 < s"
  shows "min (min (c + (0 - o') * s) (c + (w - o') * s)) (min (c + (w - o') * s) (c + (0 - o') * s))
         = c + (min 0 w - o') * s"
proof (cases "0 \<le> w")
  case True
  have "(0 - o') * s \<le> (w - o') * s"
    by (rule mult_right_mono) (use True assms in simp_all)
  then show ?thesis using True by (simp add: min_def)
next
  case False
  have "(w - o') * s \<le> (0 - o') * s"
    by (rule mult_right_mono) (use False assms in simp_all)
  then show ?thesis using False by (simp add: min_def)
qed

lemma span_max:
  fixes s w c o' :: real
  assumes "0 < s"
  shows "max (max (c + (0 - o') * s) (c + (w - o') * s)) (max (c + (w - o') * s) (c + (0 - o') * s))
         = c + (max 0 w - o') * s"
proof (cases "0 \<le> w")
  case True
  have "(0 - o') * s \<le> (w - o') * s"
    by (rule mult_right_mono) (use True assms in simp_all)
  then show ?thesis using True by (simp add: max_def)
next
  case False
  have "(w - o') * s \<le> (0 - o') * s"
    by (rule mult_right_mono) (use False assms in simp_all)
  then show ?thesis using False by (simp add: max_def)
qed

lemma span_min2:
  fixes s w c o' :: real
  assumes "0 < s"
  shows "min (min (c + (0 - o') * s) (c + (0 - o') * s)) (min (c + (w - o') * s) (c + (w - o') * s))
         = c + (min 0 w - o') * s"
proof (cases "0 \<le> w")
  case True
  have "(0 - o') * s \<le> (w - o') * s"
    by (rule mult_right_mono) (use True assms in simp_all)
  then show ?thesis using True by (simp add: min_def)
next
  case False
  have "(w - o') * s \<le> (0 - o') * s"
    by (rule mult_right_mono) (use False assms in simp_all)
  then show ?thesis using False by (simp add: min_def)
qed

lemma span_max2:
  fixes s w c o' :: real
  assumes "0 < s"
  shows "max (max (c + (0 - o') * s) (c + (0 - o') * s)) (max (c + (w - o') * s) (c + (w - o') * s))
         = c + (max 0 w - o') * s"
proof (cases "0 \<le> w")
  case True
  have "(0 - o') * s \<le> (w - o') * s"
    by (rule mult_right_mono) (use True assms in simp_all)
  then show ?thesis using True by (simp add: max_def)
next
  case False
  have "(w - o') * s \<le> (0 - o') * s"
    by (rule mult_right_mono) (use False assms in simp_all)
  then show ?thesis using False by (simp add: max_def)
qed

lemma getClientRect_upright:
  assumes "rotation n = 0" and "0 < scaleX n" and "0 < scaleY n"
  shows "getClientRect n =
    \<lparr>rect_x = node_x n + (min 0 (node_width n) - offsetX n) * scaleX n,
     rect_y = node_y n + (min 0 (node_height n) - offsetY n) * scaleY n,
     rect_width = \<bar>node_width n\<bar> * scaleX n,
     rect_height = \<bar>node_height n\<bar> * scaleY n\<rparr>"
proof -
  have ab: "\<And>w::real. max 0 w - min 0 w = \<bar>w\<bar>" by (simp add: max_def min_def)
  have "getClientRect n =
    \<lparr>rect_x = node_x n + (min 0 (node_width n) - offsetX n) * scaleX n,
     rect_y = node_y n + (min 0 (node_height n) - offsetY n) * scaleY n,
     rect_width = (node_x n + (max 0 (node_width n) - offsetX n) * scaleX n)
                  - (node_x n + (min 0 (node_width n) - offsetX n) * scaleX n),
     rect_height = (node_y n + (max 0 (node_height n) - offsetY n) * scaleY n)
                  - (node_y n + (min 0 (node_height n) - offsetY n) * scaleY n)\<rparr>"
    unfolding getClientRect_def Let_def nodePoint_upright [OF assms(1)] fst_conv snd_conv
      span_min [OF assms(2)] span_max [OF assms(2)]
      span_min2 [OF assms(3)] span_max2 [OF assms(3)] ..
  also have "\<dots> = \<lparr>rect_x = node_x n + (min 0 (node_width n) - offsetX n) * scaleX n,
     rect_y = node_y n + (min 0 (node_height n) - offsetY n) * scaleY n,
     rect_width = \<bar>node_width n\<bar> * scaleX n,
     rect_height = \<bar>node_height n\<bar> * scaleY n\<rparr>"
    using ab [of "node_width n"] ab [of "node_height n"]
    by (simp add: algebra_simps flip: ab)
  finally show ?thesis .
qed

lemma getSourceEdge_upright: "0 < sx \<Longrightarrow> 0 < sy \<Longrightarrow> getSourceEdge v 0 sx sy = Some v"
  by (cases v) (simp_all add: getSourceEdge_def snapRotation_zero rotationMaps_def flipEdgeX_def flipEdgeY_def)

lemma visualEdgeFor_upright: "0 < sx \<Longrightarrow> 0 < sy \<Longrightarrow> visualEdgeFor v 0 sx sy = Some v"
  by (cases v) (simp_all add: visualEdgeFor_def snapRotation_zero visualMaps_def flipEdgeX_def flipEdgeY_def)

lemma applyCropBounds_upright:
  assumes "rotation n = 0" and "0 < scaleX n" and "0 < scaleY n"
    and "originalWidth n \<noteq> 0" and "originalHeight n \<noteq> 0"
    and "0 < originalWidth n - cleft cb - cright cb"
    and "0 < originalHeight n - ctop cb - cbottom cb"
  shows "applyCropBounds n cb e =
     (let cw = originalWidth n - cleft cb - cright cb;
          ch = originalHeight n - ctop cb - cbottom cb;
          n1 = n\<lparr>cropBounds := cb, node_width := cw, node_height := ch,
                 offsetX := cw / 2, offsetY := ch / 2\<rparr>;
          a = oppositeEdge e
      in n1\<lparr>node_x := node_x n + (if a = Left \<or> a = Right
                 then edgePosition (getClientRect n) a - edgePosition (getClientRect n1) a else 0),
             node_y := node_y n + (if a = Top \<or> a = Bottom
                 then edgePosition (getClientRect n) a - edgePosition (getClientRect n1) a else 0)\<rparr>)"
  using assms
  by (cases e) (simp_all add: applyCropBounds_def Let_def visualEdgeFor_upright)


lemma rect_upright_edges:
  assumes "rotation n = 0" and "0 < scaleX n" and "0 < scaleY n"
    and "offsetX n = node_width n / 2" and "offsetY n = node_height n / 2"
  shows "edgePosition (getClientRect n) Left = node_x n - \<bar>node_width n\<bar> / 2 * scaleX n"
    and "edgePosition (getClientRect n) Right = node_x n + \<bar>node_width n\<bar> / 2 * scaleX n"
    and "edgePosition (getClientRect n) Top = node_y n - \<bar>node_height n\<bar> / 2 * scaleY n"
    and "edgePosition (getClientRect n) Bottom = node_y n + \<bar>node_height n\<bar> / 2 * scaleY n"
  unfolding getClientRect_upright [OF assms(1-3)] assms(4,5)
  by (simp_all add: min_def abs_if algebra_simps)

lemma applyCropBounds_anchor:
  assumes up: "rotation n = 0" "0 < scaleX n" "0 < scaleY n"
    and geo: "croppedGeometry n"
    and one: "\<And>e'. e' \<noteq> v \<Longrightarrow> cropOf cb e' = cropOf (cropBounds n) e'"
    and ne: "e \<noteq> v"
  shows "edgePosition (getClientRect (applyCropBounds n cb v)) e = edgePosition (getClientRect n) e"
proof (cases "originalWidth n = 0 \<or> originalHeight n = 0
     \<or> originalWidth n - cleft cb - cright cb \<le> 0 \<or> originalHeight n - ctop cb - cbottom cb \<le> 0")
  case True
  then have "applyCropBounds n cb v = n" by (auto simp add: applyCropBounds_def Let_def)
  then show ?thesis by simp
next
  case False
  define cw where "cw = originalWidth n - cleft cb - cright cb"
  define ch where "ch = originalHeight n - ctop cb - cbottom cb"
  define n1 where "n1 = n\<lparr>cropBounds := cb, node_width := cw, node_height := ch,
                 offsetX := cw / 2, offsetY := ch / 2\<rparr>"
  have pos: "0 < cw" "0 < ch" using False by (simp_all add: cw_def ch_def)
  have n1up: "rotation n1 = 0" "0 < scaleX n1" "0 < scaleY n1"
    "offsetX n1 = node_width n1 / 2" "offsetY n1 = node_height n1 / 2"
    using up by (simp_all add: n1_def)
  have nup: "offsetX n = node_width n / 2" "offsetY n = node_height n / 2"
    using geo by (simp_all add: croppedGeometry_def)
  note E = rect_upright_edges [OF up nup]
  note E1 = rect_upright_edges [OF n1up]
  have res: "applyCropBounds n cb v =
      n1\<lparr>node_x := node_x n + (if oppositeEdge v = Left \<or> oppositeEdge v = Right
                 then edgePosition (getClientRect n) (oppositeEdge v)
                      - edgePosition (getClientRect n1) (oppositeEdge v) else 0),
             node_y := node_y n + (if oppositeEdge v = Top \<or> oppositeEdge v = Bottom
                 then edgePosition (getClientRect n) (oppositeEdge v)
                      - edgePosition (getClientRect n1) (oppositeEdge v) else 0)\<rparr>"
    using applyCropBounds_upright [OF up, of cb v] False
    by (simp add: Let_def n1_def cw_def ch_def)
  define n2 where "n2 = applyCropBounds n cb v"
  have n2up: "rotation n2 = 0" "0 < scaleX n2" "0 < scaleY n2"
    "offsetX n2 = node_width n2 / 2" "offsetY n2 = node_height n2 / 2"
    using up by (simp_all add: n2_def res n1_def)
  note E2 = rect_upright_edges [OF n2up]
  have w2: "node_width n2 = cw" "node_height n2 = ch"
    by (simp_all add: n2_def res n1_def)
  have sc: "scaleX n2 = scaleX n" "scaleY n2 = scaleY n" "scaleX n1 = scaleX n" "scaleY n1 = scaleY n"
    by (simp_all add: n2_def res n1_def)
  have w1: "node_width n1 = cw" "node_height n1 = ch" "node_x n1 = node_x n" "node_y n1 = node_y n"
    by (simp_all add: n1_def)
  have keepw: "v = Top \<or> v = Bottom \<Longrightarrow> node_width n = cw"
    using one [of Left] one [of Right] geo by (auto simp add: croppedGeometry_def cw_def)
  have keeph: "v = Left \<or> v = Right \<Longrightarrow> node_height n = ch"
    using one [of Top] one [of Bottom] geo by (auto simp add: croppedGeometry_def ch_def)
  have xy: "node_x n2 = node_x n + (if oppositeEdge v = Left \<or> oppositeEdge v = Right
                 then edgePosition (getClientRect n) (oppositeEdge v)
                      - edgePosition (getClientRect n1) (oppositeEdge v) else 0)"
     "node_y n2 = node_y n + (if oppositeEdge v = Top \<or> oppositeEdge v = Bottom
                 then edgePosition (getClientRect n) (oppositeEdge v)
                      - edgePosition (getClientRect n1) (oppositeEdge v) else 0)"
    unfolding n2_def res by simp_all
  have "edgePosition (getClientRect n2) e = edgePosition (getClientRect n) e"
  proof (cases v)
    case Top
    show ?thesis using ne Top pos keepw
      by (cases e) (simp_all del: edgePosition.simps add: E E1 E2 w1 w2 xy sc)
  next
    case Bottom
    show ?thesis using ne Bottom pos keepw
      by (cases e) (simp_all del: edgePosition.simps add: E E1 E2 w1 w2 xy sc)
  next
    case Left
    show ?thesis using ne Left pos keeph
      by (cases e) (simp_all del: edgePosition.simps add: E E1 E2 w1 w2 xy sc)
  next
    case Right
    show ?thesis using ne Right pos keeph
      by (cases e) (simp_all del: edgePosition.simps add: E E1 E2 w1 w2 xy sc)
  qed
  then show ?thesis by (simp add: n2_def)
qed

lemma clamp_one_edge:
  "e' \<noteq> Top \<Longrightarrow> cropOf (c\<lparr>ctop := a\<rparr>) e' = cropOf c e'"
  "e' \<noteq> Bottom \<Longrightarrow> cropOf (c\<lparr>cbottom := a\<rparr>) e' = cropOf c e'"
  "e' \<noteq> Left \<Longrightarrow> cropOf (c\<lparr>cleft := a\<rparr>) e' = cropOf c e'"
  "e' \<noteq> Right \<Longrightarrow> cropOf (c\<lparr>cright := a\<rparr>) e' = cropOf c e'"
  by (cases e'; simp)+

lemma updateCropFromHandle_unfold:
  assumes "originalWidth n \<noteq> 0"
    and "getSourceEdge v (rotation n) (scaleX n) (scaleY n) = Some s"
  shows "\<exists>d. updateCropFromHandle n h v = applyCropBounds n
     (case s of
        Top \<Rightarrow> (cropBounds n)\<lparr>ctop := max 0 (min (originalHeight n
                                 - cbottom (cropBounds n) - minSize) (ctop (cropBounds n) + d))\<rparr>
      | Bottom \<Rightarrow> (cropBounds n)\<lparr>cbottom := max 0 (min (originalHeight n
                                 - ctop (cropBounds n) - minSize) (cbottom (cropBounds n) + d))\<rparr>
      | Left \<Rightarrow> (cropBounds n)\<lparr>cleft := max 0 (min (originalWidth n
                                 - cright (cropBounds n) - minSize) (cleft (cropBounds n) + d))\<rparr>
      | Right \<Rightarrow> (cropBounds n)\<lparr>cright := max 0 (min (originalWidth n
                                 - cleft (cropBounds n) - minSize) (cright (cropBounds n) + d))\<rparr>) s"
  unfolding updateCropFromHandle_def Let_def assms(2) option.case if_not_P [OF assms(1)]
  by (rule exI) (rule refl)

lemma updateCropFromHandle_one_edge:
  assumes "originalWidth n \<noteq> 0"
    and "getSourceEdge v (rotation n) (scaleX n) (scaleY n) = Some s"
  shows "\<exists>cb. updateCropFromHandle n h v = applyCropBounds n cb s
           \<and> (\<forall>e'. e' \<noteq> s \<longrightarrow> cropOf cb e' = cropOf (cropBounds n) e')"
proof -
  obtain d where d: "updateCropFromHandle n h v = applyCropBounds n
     (case s of
        Top \<Rightarrow> (cropBounds n)\<lparr>ctop := max 0 (min (originalHeight n
                                 - cbottom (cropBounds n) - minSize) (ctop (cropBounds n) + d))\<rparr>
      | Bottom \<Rightarrow> (cropBounds n)\<lparr>cbottom := max 0 (min (originalHeight n
                                 - ctop (cropBounds n) - minSize) (cbottom (cropBounds n) + d))\<rparr>
      | Left \<Rightarrow> (cropBounds n)\<lparr>cleft := max 0 (min (originalWidth n
                                 - cright (cropBounds n) - minSize) (cleft (cropBounds n) + d))\<rparr>
      | Right \<Rightarrow> (cropBounds n)\<lparr>cright := max 0 (min (originalWidth n
                                 - cleft (cropBounds n) - minSize) (cright (cropBounds n) + d))\<rparr>) s"
    using updateCropFromHandle_unfold [OF assms] by blast
  show ?thesis
    unfolding d
    by (rule exI, rule conjI, rule refl) (cases s; simp add: clamp_one_edge)
qed

lemma anchor_upright:
  assumes up: "rotation n = 0" "0 < scaleX n" "0 < scaleY n"
    and geo: "croppedGeometry n"
    and ne: "e \<noteq> v"
  shows "edgePosition (getClientRect (updateCropFromHandle n h v)) e = edgePosition (getClientRect n) e"
proof (cases "originalWidth n = 0")
  case True
  then show ?thesis by (simp add: updateCropFromHandle_def)
next
  case False
  have s: "getSourceEdge v (rotation n) (scaleX n) (scaleY n) = Some v"
    using up by (simp add: getSourceEdge_upright)
  obtain cb where cb: "updateCropFromHandle n h v = applyCropBounds n cb v"
    and one: "\<And>e'. e' \<noteq> v \<Longrightarrow> cropOf cb e' = cropOf (cropBounds n) e'"
    using updateCropFromHandle_one_edge [OF False s, of h] by blast
  show ?thesis
    unfolding cb by (rule applyCropBounds_anchor [OF up geo one ne])
qed


lemma applyCropBounds_perpendicular:
  assumes "rotation n = 0" and "0 < scaleX n" and "0 < scaleY n"
  shows "(v = Left \<or> v = Right \<longrightarrow> node_y (applyCropBounds n cb v) = node_y n)
       \<and> (v = Top \<or> v = Bottom \<longrightarrow> node_x (applyCropBounds n cb v) = node_x n)"
  using assms
  by (cases v) (simp_all add: applyCropBounds_def Let_def visualEdgeFor_upright)

lemma updateCropFromHandle_perpendicular:
  assumes up: "rotation n = 0" "0 < scaleX n" "0 < scaleY n"
  shows "(v = Left \<or> v = Right \<longrightarrow> node_y (updateCropFromHandle n h v) = node_y n)
       \<and> (v = Top \<or> v = Bottom \<longrightarrow> node_x (updateCropFromHandle n h v) = node_x n)"
proof (cases "originalWidth n = 0")
  case True
  then show ?thesis by (simp add: updateCropFromHandle_def)
next
  case False
  have s: "getSourceEdge v (rotation n) (scaleX n) (scaleY n) = Some v"
    using up by (simp add: getSourceEdge_upright)
  obtain cb where cb: "updateCropFromHandle n h v = applyCropBounds n cb v"
    using updateCropFromHandle_one_edge [OF False s, of h] by blast
  show ?thesis
    unfolding cb by (rule applyCropBounds_perpendicular [OF up])
qed

text \<open>
  Claim C4. Take a node with rotation 0 and both scales positive whose box is the cropped
  region centred on its origin. A crop update from the handle of one visual edge leaves
  the positions of the other three edges of the node's client rectangle as they were:
  the position correction gives the anchored edge back exactly what the recentred origin
  took from it, and the coordinate across the dragged direction is not touched.
\<close>

theorem crop_update_keeps_other_edges:
  assumes "rotation n = 0" and "0 < scaleX n" and "0 < scaleY n" and "croppedGeometry n"
  shows "(\<forall>e. e \<noteq> v \<longrightarrow>
            edgePosition (getClientRect (updateCropFromHandle n h v)) e
              = edgePosition (getClientRect n) e)
       \<and> (v = Left \<or> v = Right \<longrightarrow> node_y (updateCropFromHandle n h v) = node_y n)
       \<and> (v = Top \<or> v = Bottom \<longrightarrow> node_x (updateCropFromHandle n h v) = node_x n)"
  using anchor_upright [OF assms] updateCropFromHandle_perpendicular [OF assms(1-3)]
  by blast


lemma example_rect:
  "getClientRect exampleNode =
     \<lparr>rect_x = - 250, rect_y = - 200, rect_width = 500, rect_height = 400\<rparr>"
  by (simp add: getClientRect_def nodePoint_def exampleNode_def Let_def)

lemma example_left_crop:
  "updateCropFromHandle exampleNode leftHandle Left =
     exampleNode\<lparr>cropBounds := zeroCrop\<lparr>cleft := 100\<rparr>, node_width := 900,
        node_height := 800, offsetX := 450, offsetY := 400, node_x := 25\<rparr>"
  by (simp add: updateCropFromHandle_def applyCropBounds_def getSourceEdge_upright
      visualEdgeFor_upright getClientRect_def nodePoint_def exampleNode_def leftHandle_def
      zeroCrop_def minSize_def Let_def)


text \<open>
  The scenario of the specification: 100 source pixels cropped off the left of the 1000 by
  800 image. The right, top and bottom edges stay at 250, -200 and 200, the vertical
  position stays 0, the left bound becomes 100 and the left edge moves from -250 to -200.
\<close>

theorem crop_update_keeps_other_edges_witness:
  "rotation exampleNode = 0 \<and> 0 < scaleX exampleNode \<and> 0 < scaleY exampleNode
   \<and> croppedGeometry exampleNode
   \<and> edgePosition (getClientRect (updateCropFromHandle exampleNode leftHandle Left)) Right = 250
   \<and> edgePosition (getClientRect (updateCropFromHandle exampleNode leftHandle Left)) Top = - 200
   \<and> edgePosition (getClientRect (updateCropFromHandle exampleNode leftHandle Left)) Bottom = 200
   \<and> node_y (updateCropFromHandle exampleNode leftHandle Left) = 0
   \<and> cleft (cropBounds (updateCropFromHandle exampleNode leftHandle Left)) = 100
   \<and> edgePosition (getClientRect (updateCropFromHandle exampleNode leftHandle Left)) Left = - 200"
proof -
  have h1: "rotation exampleNode = 0" and h2: "0 < scaleX exampleNode"
    and h3: "0 < scaleY exampleNode"
    by (simp_all add: exampleNode_def)
  have h4: "croppedGeometry exampleNode"
    by (simp add: croppedGeometry_def exampleNode_def zeroCrop_def)
  note kept = crop_update_keeps_other_edges [OF h1 h2 h3 h4, of Left leftHandle]
  have k1: "\<And>e. e \<noteq> Left \<Longrightarrow>
      edgePosition (getClientRect (updateCropFromHandle exampleNode leftHandle Left)) e
        = edgePosition (getClientRect exampleNode) e"
    using kept by blast
  have e: "edgePosition (getClientRect (updateCropFromHandle exampleNode leftHandle Left)) Right
             = edgePosition (getClientRect exampleNode) Right"
      "edgePosition (getClientRect (updateCropFromHandle exampleNode leftHandle Left)) Top
             = edgePosition (getClientRect exampleNode) Top"
      "edgePosition (getClientRect (updateCropFromHandle exampleNode leftHandle Left)) Bottom
             = edgePosition (getClientRect exampleNode) Bottom"
      "node_y (updateCropFromHandle exampleNode leftHandle Left) = node_y exampleNode"
    using k1 [of Right] k1 [of Top] k1 [of Bottom] kept by simp_all
  have y: "node_y exampleNode = 0" by (simp add: exampleNode_def)
  have l: "cleft (cropBounds (updateCropFromHandle exampleNode leftHandle Left)) = 100"
    by (simp add: example_left_crop)
  have m: "edgePosition (getClientRect (updateCropFromHandle exampleNode leftHandle Left)) Left
             = - 200"
    unfolding example_left_crop
    by (simp add: getClientRect_def nodePoint_def exampleNode_def Let_def)
  show ?thesis
    unfolding e using h1 h2 h3 h4 l m y by (simp add: example_rect)
qed


section \<open>Properties of the undo engine\<close>

declare truncateStack.simps [simp del]

lemma truncateStack_drop: "truncateStack st = drop (length st - MAX_UNDO_LEVELS) st"
proof (induction st rule: truncateStack.induct)
  case (1 st)
  show ?case
  proof (cases "MAX_UNDO_LEVELS < length st")
    case True
    then obtain x xs where st: "st = x # xs" by (cases st) auto
    have "truncateStack st = truncateStack (tl st)"
      using True by (subst truncateStack.simps) simp
    also have "\<dots> = drop (length (tl st) - MAX_UNDO_LEVELS) (tl st)"
      using "1.IH" True by simp
    also have "\<dots> = drop (length st - MAX_UNDO_LEVELS) st"
      using True st by (simp add: Suc_diff_le)
    finally show ?thesis .
  next
    case False
    then show ?thesis by (subst truncateStack.simps) simp
  qed
qed

lemma truncateStack_length: "length (truncateStack st) \<le> MAX_UNDO_LEVELS"
  by (simp add: truncateStack_drop)

lemma truncateStack_snoc_length:
  "length (truncateStack (st @ [x])) = min MAX_UNDO_LEVELS (Suc (length st))"
  by (simp add: truncateStack_drop MAX_UNDO_LEVELS_def)


lemma truncateStack_full:
  "length st = MAX_UNDO_LEVELS \<Longrightarrow> truncateStack (st @ [x]) = tl st @ [x]"
  by (cases st) (simp_all add: truncateStack_drop MAX_UNDO_LEVELS_def)

lemma sort_enumerate: "sort_key fst (enumerate k xs) = enumerate k xs"
  by (rule sort_key_id_if_sorted) simp

lemma captureState_images:
  "st_images (captureState s) = map (\<lambda>(index, img). captureImage img index) (enumerate 0 (images s))"
  by (simp add: captureState_def sort_enumerate Let_def)

lemma length_captureState [simp]: "length (st_images (captureState s)) = length (images s)"
  by (simp add: captureState_images)

lemma zIndex_captured:
  "map st_zIndex (map (\<lambda>(index, img). captureImage img index) (enumerate k xs))
     = map real [k..<k + length xs]"
proof -
  have "map st_zIndex (map (\<lambda>(index, img). captureImage img index) (enumerate k xs))
      = map (\<lambda>p. real (fst p)) (enumerate k xs)"
    by (simp add: captureImage_def case_prod_beta)
  also have "\<dots> = map real (map fst (enumerate k xs))" by (simp only: map_map comp_def)
  also have "\<dots> = map real [k..<k + length xs]" by (simp only: map_fst_enumerate)
  finally show ?thesis .
qed

lemma sorted_map_real: "sorted (map real [a..<b])"
  by (simp add: sorted_map strict_sorted_iff flip: sorted_wrt_map)

lemma restoreState_simps [simp]:
  "images (restoreState st s) = map createKonvaImageFromState (sort_key st_zIndex (st_images st))"
  "undoStack (restoreState st s) = undoStack s"
  "redoStack (restoreState st s) = redoStack s"
  "imageCount (restoreState st s) = imageCount s"
  "nudgeUndoPushed (restoreState st s) = nudgeUndoPushed s"
  "stage (restoreState st s) = stage s"
  by (simp_all add: restoreState_def Let_def)

lemma pushUndo_simps [simp]:
  "images (pushUndo s) = images s"
  "selected (pushUndo s) = selected s"
  "imageCount (pushUndo s) = imageCount s"
  "nudgeUndoPushed (pushUndo s) = nudgeUndoPushed s"
  "stage (pushUndo s) = stage s"
  "redoStack (pushUndo s) = []"
  "undoStack (pushUndo s) = truncateStack (undoStack s @ [captureState s])"
  by (simp_all add: pushUndo_def Let_def)

lemma selectedIndex_pushUndo [simp]: "selectedIndex (pushUndo s) = selectedIndex s"
  by (simp add: selectedIndex_def split: option.splits)

lemma getSelectedImage_pushUndo [simp]: "getSelectedImage (pushUndo s) = getSelectedImage s"
  by (simp add: getSelectedImage_def)

lemma captureState_pushUndo [simp]: "captureState (pushUndo s) = captureState s"
  by (simp add: captureState_def)

lemma mutateSelected_simps [simp]:
  "undoStack (mutateSelected f s) = undoStack s"
  "redoStack (mutateSelected f s) = redoStack s"
  "selected (mutateSelected f s) = selected s"
  "imageCount (mutateSelected f s) = imageCount s"
  "nudgeUndoPushed (mutateSelected f s) = nudgeUndoPushed s"
  "stage (mutateSelected f s) = stage s"
  "length (images (mutateSelected f s)) = length (images s)"
  by (simp_all add: mutateSelected_def split: option.splits)

lemma mutateSelected_images:
  "selectedIndex s = Some i \<Longrightarrow> images (mutateSelected f s) = (images s)[i := f (images s ! i)]"
  by (simp add: mutateSelected_def)

lemma selectedIndex_SomeD: "selectedIndex s = Some i \<Longrightarrow> selected s = Some i \<and> i < length (images s)"
  by (simp add: selectedIndex_def split: option.splits if_splits)

lemma zIndex_captureState:
  "map st_zIndex (st_images (captureState s)) = map real [0..<length (images s)]"
  unfolding captureState_images zIndex_captured by simp







lemma moveTo_simps [simp]:
  "undoStack (moveToTopAt i s) = undoStack s"
  "redoStack (moveToTopAt i s) = redoStack s"
  "undoStack (moveToBottomAt i s) = undoStack s"
  "redoStack (moveToBottomAt i s) = redoStack s"
  by (simp_all add: moveToTopAt_def moveToBottomAt_def Let_def)

lemma loadProject_failed:
  "deserializeStateFromZip gen file = Inl err \<Longrightarrow> loadProject gen file s = (s, Some err)"
  by (simp add: loadProject_def)

lemma loadProject_stacks:
  assumes "deserializeStateFromZip gen file = Inr (ls, c)"
  shows "undoStack (fst (loadProject gen file s)) = undoStack (pushUndo s)"
    and "redoStack (fst (loadProject gen file s)) = []"
    and "snd (loadProject gen file s) = None"
  using assms by (simp_all add: loadProject_def Let_def)



lemma perform_stacks:
  assumes "a \<noteq> Undo" and "a \<noteq> Redo"
  shows "(undoStack (perform a s) = undoStack s \<and> redoStack (perform a s) = redoStack s)
       \<or> (undoStack (perform a s) = undoStack (pushUndo s) \<and> redoStack (perform a s) = [])"
proof (cases a)
  case (LoadProject gen f)
  show ?thesis
  proof (cases "deserializeStateFromZip gen f")
    case (Inl err)
    then show ?thesis using LoadProject by (simp add: loadProject_failed)
  next
    case (Inr p)
    then obtain ls c where "deserializeStateFromZip gen f = Inr (ls, c)" by (cases p) simp
    then show ?thesis using LoadProject loadProject_stacks [of gen f ls c s] by simp
  qed
next
  case (AddImage img fileName newId)
  then show ?thesis by (simp add: addImage_def Let_def)
next
  case (ClickImage i)
  then show ?thesis by (simp add: clickImage_def)
next
  case ClickStage
  then show ?thesis by (simp add: clickStage_def)
next
  case (DoubleClickImage i)
  then show ?thesis by (simp add: doubleClickImage_def)
next
  case (DragImage i px py)
  then show ?thesis by (simp add: dragImage_def Let_def)
next
  case (Nudge ax amount snap)
  then show ?thesis
    by (simp add: handleNudge_def Let_def split: option.splits)
next
  case NudgeIdle
  then show ?thesis by (simp add: nudgeIdle_def)
next
  case (SetBlendMode k)
  then show ?thesis by (simp add: setBlendMode_def split: option.splits)
next
  case CycleBlendMode
  then show ?thesis
    by (simp add: cycleBlendMode_def setBlendMode_def Let_def split: option.splits)
next
  case (DuplicateImage newId)
  then show ?thesis by (simp add: duplicateImage_def Let_def split: option.splits)
next
  case Undo
  then show ?thesis using assms by simp
next
  case Redo
  then show ?thesis using assms by simp
qed (simp_all add: transformSelected_def cropDrag_def resetCrop_def
      flipHorizontal_def flipVertical_def rotateLeft_def rotateRight_def bringToTop_def
      sendToBottom_def deleteSelected_def setOpacity_def Let_def split: option.splits)

lemma stackBound_pushUndo: "stackBound (pushUndo s)"
  by (simp add: stackBound_def truncateStack_length)

lemma stackBound_undo: "stackBound s \<Longrightarrow> stackBound (undo s)"
  by (cases "undoStack s" rule: rev_cases) (simp_all add: stackBound_def undo_def Let_def)

lemma stackBound_redo: "stackBound s \<Longrightarrow> stackBound (redo s)"
  by (cases "redoStack s" rule: rev_cases) (simp_all add: stackBound_def redo_def Let_def)

lemma stackBound_perform: "stackBound s \<Longrightarrow> stackBound (perform a s)"
proof (cases "a = Undo \<or> a = Redo")
  case True
  assume "stackBound s"
  then show ?thesis using True stackBound_undo stackBound_redo by auto
next
  case False
  assume b: "stackBound s"
  from False perform_stacks [of a s]
  consider "undoStack (perform a s) = undoStack s \<and> redoStack (perform a s) = redoStack s"
    | "undoStack (perform a s) = undoStack (pushUndo s) \<and> redoStack (perform a s) = []"
    by blast
  then show ?thesis
  proof cases
    case 1
    then show ?thesis using b by (simp add: stackBound_def)
  next
    case 2
    then show ?thesis using stackBound_pushUndo [of s] by (simp add: stackBound_def)
  qed
qed

lemma stackBound_steps:
  assumes "stackBound s"
    and "\<forall>f \<in> set fs. f \<in> {pushUndo, undo, redo} \<union> range perform"
  shows "stackBound (fold (\<lambda>f. f) fs s)"
  using assms
proof (induction fs arbitrary: s)
  case Nil
  then show ?case by simp
next
  case (Cons f fs)
  have "stackBound (f s)"
    using Cons.prems stackBound_pushUndo stackBound_undo stackBound_redo stackBound_perform
    by auto
  then show ?case using Cons by simp
qed

section \<open>Every image keeps a blend mode\<close>

lemma blendModesSet_pushUndo [simp]: "blendModesSet (pushUndo s) = blendModesSet s"
  by (simp add: blendModesSet_def)

lemma blendModesSet_mutateSelected:
  assumes "\<And>n. blendMode n \<noteq> [] \<Longrightarrow> blendMode (f n) \<noteq> []" and "blendModesSet s"
  shows "blendModesSet (mutateSelected f s)"
proof (cases "selectedIndex s")
  case None
  then show ?thesis using assms(2) by (simp add: mutateSelected_def)
next
  case (Some i)
  then have i: "i < length (images s)" using selectedIndex_SomeD by blast
  have "blendMode (images s ! i) \<noteq> []"
    using assms(2) i by (simp add: blendModesSet_def)
  then have "blendMode (f (images s ! i)) \<noteq> []" by (rule assms(1))
  then show ?thesis
    using assms(2) set_update_subset_insert [of "images s" i "f (images s ! i)"]
    by (auto simp add: blendModesSet_def mutateSelected_images [OF Some])
qed

lemma applyCropBounds_blendMode [simp]: "blendMode (applyCropBounds n cb e) = blendMode n"
  by (simp add: applyCropBounds_def Let_def split: option.splits)

lemma updateCropFromHandle_blendMode [simp]: "blendMode (updateCropFromHandle n h v) = blendMode n"
  by (simp add: updateCropFromHandle_def Let_def split: option.splits)

lemma cropUpdates_blendMode [simp]: "blendMode (cropUpdates n us) = blendMode n"
proof (induction us rule: rev_induct)
  case Nil
  then show ?case by (simp add: cropUpdates_def)
next
  case (snoc u us)
  obtain h v where u: "u = (h, v)" by (cases u)
  show ?case unfolding u cropUpdates_snoc using snoc.IH by simp
qed

lemma blendModes_nonempty: "k < length blendModes \<Longrightarrow> fst (blendModes ! k) \<noteq> []"
proof -
  assume "k < length blendModes"
  then have "blendModes ! k \<in> set blendModes" by (rule nth_mem)
  then show ?thesis by (auto simp add: blendModes_def)
qed

lemma blendModesSet_setBlendMode:
  "mode \<noteq> [] \<Longrightarrow> blendModesSet s \<Longrightarrow> blendModesSet (setBlendMode mode s)"
  by (cases "getSelectedImage s") (simp_all add: setBlendMode_def blendModesSet_mutateSelected)

lemma blendModesSet_moveToTopAt:
  "i < length (images s) \<Longrightarrow> blendModesSet s \<Longrightarrow> blendModesSet (moveToTopAt i s)"
  by (auto simp add: blendModesSet_def moveToTopAt_def Let_def dest: in_set_takeD in_set_dropD)

lemma blendModesSet_moveToBottomAt:
  "i < length (images s) \<Longrightarrow> blendModesSet s \<Longrightarrow> blendModesSet (moveToBottomAt i s)"
  by (auto simp add: blendModesSet_def moveToBottomAt_def Let_def dest: in_set_takeD in_set_dropD)

lemma loadedEntry_blendMode [simp]: "st_blendMode (loadedEntry d r fid i) \<noteq> []"
  by (simp add: loadedEntry_def split: option.splits)

lemma deserializeImages_blendMode:
  "deserializeImages gen files i c ds = Inr (imgs, c') \<Longrightarrow> \<forall>e \<in> set imgs. st_blendMode e \<noteq> []"
proof (induction ds arbitrary: i c imgs c')
  case Nil
  then show ?case by simp
next
  case (Cons d ds)
  show ?case
  proof (cases "files (d_filename d)")
    case None
    then show ?thesis using Cons by simp
  next
    case (Some b)
    show ?thesis
    proof (cases b)
      case Undecodable
      then show ?thesis using Cons.prems Some by simp
    next
      case (Decodable r)
      define c1 where "c1 = (if (case d_id d of None \<Rightarrow> True | Some v \<Rightarrow> v = []) then Suc c else c)"
      have step: "deserializeImages gen files i c (d # ds) =
          (case deserializeImages gen files (Suc i) c1 ds of
             Inl err \<Rightarrow> Inl err
           | Inr (imgs, c') \<Rightarrow> Inr (loadedEntry d r (gen c) i # imgs, c'))"
        by (simp add: Some Decodable Let_def c1_def)
      from Cons.prems obtain imgs0 where r: "deserializeImages gen files (Suc i) c1 ds = Inr (imgs0, c')"
        and i: "imgs = loadedEntry d r (gen c) i # imgs0"
        unfolding step by (auto split: sum.splits)
      show ?thesis using Cons.IH [OF r] i by simp
    qed
  qed
qed

lemma captureImage_blendMode [simp]: "st_blendMode (captureImage n i) \<noteq> []"
  by (simp add: captureImage_def)

lemma createKonvaImageFromState_blendMode [simp]:
  "blendMode (createKonvaImageFromState e) = st_blendMode e"
  by (simp add: createKonvaImageFromState_def Let_def)

lemma captureState_blendMode: "\<forall>e \<in> set (st_images (captureState s)). st_blendMode e \<noteq> []"
  by (auto simp add: captureState_images in_set_enumerate_eq)

lemma blendModesSet_restore:
  "\<forall>e \<in> set (st_images st). st_blendMode e \<noteq> [] \<Longrightarrow> blendModesSet (restoreState st s)"
  by (auto simp add: blendModesSet_def)

section \<open>Properties of the project loader\<close>

lemma Max_real_upt: "0 < n \<Longrightarrow> Max (set (map real [0..<n])) = real n - 1"
proof (rule Max_eqI)
  show "finite (set (map real [0..<n]))" by simp
  show "\<And>y. y \<in> set (map real [0..<n]) \<Longrightarrow> y \<le> real n - 1" by auto
  assume "0 < n"
  then have e: "real n - 1 = real (n - 1)" by (simp add: of_nat_diff)
  have "n - 1 \<in> set [0..<n]" using \<open>0 < n\<close> by simp
  then have "real (n - 1) \<in> real ` set [0..<n]" by (rule imageI)
  then show "real n - 1 \<in> set (map real [0..<n])" unfolding e by simp
qed

lemma maxCurrentZIndex:
  "(if st_images (captureState s) = [] then - 1
    else Max (set (map st_zIndex (st_images (captureState s))))) + 1 = real (length (images s))"
proof (cases "images s = []")
  case True
  then show ?thesis by (simp add: captureState_images)
next
  case False
  then have n: "0 < length (images s)" by simp
  have ne: "st_images (captureState s) \<noteq> []"
    using n length_captureState [of s] by (metis length_greater_0_conv)
  have m: "Max (set (map st_zIndex (st_images (captureState s)))) = real (length (images s)) - 1"
    by (simp only: zIndex_captureState Max_real_upt [OF n])
  show ?thesis
    unfolding m using ne by simp
qed

lemma map_enumerate_zIndex:
  "map st_zIndex (map (\<lambda>(i, e). (g i e)\<lparr>st_zIndex := z + real i\<rparr>) (enumerate k xs))
     = map (\<lambda>i. z + real i) [k..<k + length xs]"
proof -
  have "map st_zIndex (map (\<lambda>(i, e). (g i e)\<lparr>st_zIndex := z + real i\<rparr>) (enumerate k xs))
      = map (\<lambda>p. z + real (fst p)) (enumerate k xs)"
    by (simp add: case_prod_beta)
  also have "\<dots> = map (\<lambda>i. z + real i) (map fst (enumerate k xs))"
    by (simp only: map_map comp_def)
  also have "\<dots> = map (\<lambda>i. z + real i) [k..<k + length xs]"
    by (simp only: map_fst_enumerate)
  finally show ?thesis .
qed

lemma sorted_merged:
  "sorted (map real [0..<n] @ map (\<lambda>i. real n + real i) [0..<m])"
proof -
  have "map (\<lambda>i. real n + real i) [0..<m] = map real [n..<n + m]"
    by (rule nth_equalityI) simp_all
  then have "map real [0..<n] @ map (\<lambda>i. real n + real i) [0..<m]
      = map real ([0..<n] @ [n..<n + m])"
    by (simp only: map_append)
  also have "[0..<n] @ [n..<n + m] = [0..<n + m]"
    by (simp only: upt_add_eq_append [of 0 n m, simplified])
  finally show ?thesis by (simp only: sorted_map_real)
qed

lemma enumerate_fuse:
  "map (\<lambda>(i, y). h i y) (enumerate k (map (\<lambda>(i, x). g i x) (enumerate k xs)))
     = map (\<lambda>(i, x). h i (g i x)) (enumerate k xs)"
  by (induction xs arbitrary: k) simp_all

lemma loadProject_images:
  assumes "deserializeStateFromZip gen f = Inr (ls, c)"
  shows "images (fst (loadProject gen f s)) =
     map createKonvaImageFromState (st_images (captureState s))
     @ map (\<lambda>(i, e). createKonvaImageFromState
              (placedEntry gen c (fst (getViewportCenter s) - savedCenter (map st_x (st_images ls)))
                 (snd (getViewportCenter s) - savedCenter (map st_y (st_images ls)))
                 (length (images s)) i e))
         (enumerate 0 (st_images ls))"
proof -
  define ox where "ox = fst (getViewportCenter s) - savedCenter (map st_x (st_images ls))"
  define oy where "oy = snd (getViewportCenter s) - savedCenter (map st_y (st_images ls))"
  define z where "z = (if st_images (captureState s) = [] then - 1
       else Max (set (map st_zIndex (st_images (captureState s)))))"
  define placed where "placed = map (\<lambda>(i, imgState). imgState\<lparr>st_zIndex := z + 1 + real i\<rparr>)
      (enumerate 0 (map (\<lambda>(i, imgState). imgState\<lparr>st_x := st_x imgState + ox,
            st_y := st_y imgState + oy, st_id := gen (c + i)\<rparr>) (enumerate 0 (st_images ls))))"
  have z: "z + 1 = real (length (images s))"
    unfolding z_def by (rule maxCurrentZIndex)
  have placed: "placed = map (\<lambda>(i, e). placedEntry gen c ox oy (length (images s)) i e)
      (enumerate 0 (st_images ls))"
    unfolding placed_def enumerate_fuse z placedEntry_def by simp
  have zs: "map st_zIndex placed
      = map (\<lambda>i. real (length (images s)) + real i) [0..<length (st_images ls)]"
    unfolding placed placedEntry_def
    using map_enumerate_zIndex [where g = "\<lambda>i e. e\<lparr>st_x := st_x e + ox, st_y := st_y e + oy, st_id := gen (c + i)\<rparr>"
        and z = "real (length (images s))" and k = 0 and xs = "st_images ls"]
    by simp
  have srt: "sort_key st_zIndex (st_images (captureState s) @ placed)
      = st_images (captureState s) @ placed"
    by (rule sort_key_id_if_sorted) (simp only: map_append zIndex_captureState zs sorted_merged)
  have "images (fst (loadProject gen f s))
      = map createKonvaImageFromState (sort_key st_zIndex (st_images (captureState s) @ placed))"
    using assms by (simp add: loadProject_def Let_def placed_def z_def ox_def oy_def)
  also have "\<dots> = map createKonvaImageFromState (st_images (captureState s))
      @ map createKonvaImageFromState placed"
    by (simp only: srt map_append)
  also have "map createKonvaImageFromState placed
      = map (\<lambda>(i, e). createKonvaImageFromState
              (placedEntry gen c ox oy (length (images s)) i e)) (enumerate 0 (st_images ls))"
    unfolding placed by (simp add: case_prod_beta)
  finally show ?thesis unfolding ox_def oy_def .
qed

section \<open>The bound on the undo stack\<close>

lemma stackBound_initial: "stackBound (initialEditor w h)"
  by (simp add: stackBound_def initialEditor_def)

text \<open>
  Claim C6. Start from the editor as it is created and apply any sequence of steps, each
  of them \<open>pushUndo\<close>, \<open>undo\<close>, \<open>redo\<close> or any action of the editor (which calls
  \<open>pushUndo\<close> before it changes the scene). The undo stack then holds at most 30
  snapshots, although \<open>redo\<close> pushes without truncating; and when it holds 30, the next
  \<open>pushUndo\<close> drops the oldest snapshot and appends the new one.
\<close>

theorem undo_stack_never_exceeds_limit:
  assumes "\<forall>f \<in> set fs. f \<in> {pushUndo, undo, redo} \<union> range perform"
  shows "let s = fold (\<lambda>f. f) fs (initialEditor w h)
         in length (undoStack s) \<le> 30
            \<and> (length (undoStack s) = 30 \<longrightarrow>
                 undoStack (pushUndo s) = tl (undoStack s) @ [captureState s])"
proof -
  have "stackBound (fold (\<lambda>f. f) fs (initialEditor w h))"
    by (rule stackBound_steps [OF stackBound_initial assms])
  then show ?thesis
    using truncateStack_full [of "undoStack (fold (\<lambda>f. f) fs (initialEditor w h))"]
    by (simp add: stackBound_def MAX_UNDO_LEVELS_def Let_def)
qed

text \<open>Thirty-one pushes on the new editor fill the stack to 30, the oldest dropped.\<close>

lemma pushes_length:
  "length (undoStack s) \<le> 30 \<Longrightarrow>
   length (undoStack (fold (\<lambda>f. f) (replicate k pushUndo) s)) = min 30 (length (undoStack s) + k)"
proof (induction k arbitrary: s)
  case 0
  then show ?case by simp
next
  case (Suc k)
  have le: "length (undoStack (pushUndo s)) \<le> 30"
    using truncateStack_length [of "undoStack s @ [captureState s]"]
    by (simp add: MAX_UNDO_LEVELS_def)
  have "length (undoStack (fold (\<lambda>f. f) (replicate (Suc k) pushUndo) s))
      = min 30 (length (undoStack (pushUndo s)) + k)"
    using Suc.IH [OF le] by simp
  also have "\<dots> = min 30 (length (undoStack s) + Suc k)"
    by (simp add: truncateStack_snoc_length MAX_UNDO_LEVELS_def)
  finally show ?case .
qed

theorem undo_stack_never_exceeds_limit_witness:
  "pushUndo \<in> {pushUndo, undo, redo} \<union> range perform
   \<and> length (undoStack (fold (\<lambda>f. f) (replicate 31 pushUndo) (initialEditor 800 600))) = 30
   \<and> undoStack (pushUndo (fold (\<lambda>f. f) (replicate 31 pushUndo) (initialEditor 800 600)))
       = tl (undoStack (fold (\<lambda>f. f) (replicate 31 pushUndo) (initialEditor 800 600)))
         @ [captureState (fold (\<lambda>f. f) (replicate 31 pushUndo) (initialEditor 800 600))]"
proof -
  have h: "\<forall>f \<in> set (replicate 31 pushUndo). f \<in> {pushUndo, undo, redo} \<union> range perform"
    by simp
  have "length (undoStack (initialEditor 800 600)) \<le> 30"
    by (simp add: initialEditor_def)
  from pushes_length [OF this, of 31]
  have l: "length (undoStack (fold (\<lambda>f. f) (replicate 31 pushUndo) (initialEditor 800 600))) = 30"
    by (simp add: initialEditor_def)
  from undo_stack_never_exceeds_limit [OF h, of 800 600] l show ?thesis
    by (simp add: Let_def)
qed

section \<open>Undo and redo restore the scene\<close>

lemma deserializeStateFromZip_Inr:
  assumes "deserializeStateFromZip gen f = Inr (ls, c)"
  shows "\<exists>z ds. f = Zip z \<and> projectFile z = Some (Parsed ds)
           \<and> deserializeImages gen (imageFiles z) 0 0 ds = Inr (st_images ls, c)"
  using assms
  by (auto simp add: deserializeStateFromZip_def
      split: montageFile.splits option.splits projectJson.splits sum.splits)

lemma loaded_blendMode:
  assumes "deserializeStateFromZip gen f = Inr (ls, c)"
  shows "\<forall>e \<in> set (st_images ls). st_blendMode e \<noteq> []"
  using deserializeStateFromZip_Inr [OF assms] deserializeImages_blendMode by blast

lemma placedEntry_blendMode [simp]:
  "st_blendMode (placedEntry gen c ox oy n i e) = st_blendMode e"
  by (simp add: placedEntry_def)

lemma blendModesSet_loadProject:
  assumes "blendModesSet s"
  shows "blendModesSet (fst (loadProject gen f s))"
proof (cases "deserializeStateFromZip gen f")
  case (Inl err)
  then show ?thesis using assms by (simp add: loadProject_failed)
next
  case (Inr p)
  then obtain ls c where d: "deserializeStateFromZip gen f = Inr (ls, c)" by (cases p) simp
  have "\<forall>n \<in> set (images (fst (loadProject gen f s))). blendMode n \<noteq> []"
    unfolding loadProject_images [OF d]
    using captureState_blendMode [of s] loaded_blendMode [OF d]
    by (auto simp add: in_set_enumerate_eq)
  then show ?thesis by (simp add: blendModesSet_def)
qed

lemma blendModesSet_append:
  "blendModesSet s \<Longrightarrow> blendMode n \<noteq> [] \<Longrightarrow> blendModesSet (s\<lparr>images := images s @ [n]\<rparr>)"
  by (simp add: blendModesSet_def)

lemma blendModesSet_perform:
  assumes "blendModesSet s" and "a \<noteq> Undo" and "a \<noteq> Redo"
  shows "blendModesSet (perform a s)"
proof (cases a)
  case (LoadProject gen f)
  then show ?thesis using assms(1) by (simp add: blendModesSet_loadProject)
next
  case (AddImage img fileName newId)
  then show ?thesis using assms(1) by (simp add: addImage_def Let_def blendModesSet_def)
next
  case (ClickImage i)
  then show ?thesis using assms(1) by (simp add: clickImage_def blendModesSet_def)
next
  case ClickStage
  then show ?thesis using assms(1) by (simp add: clickStage_def blendModesSet_def)
next
  case (DoubleClickImage i)
  then show ?thesis using assms(1)
    by (simp add: doubleClickImage_def blendModesSet_moveToTopAt)
next
  case (DragImage i px py)
  then show ?thesis using assms(1)
    using set_update_subset_insert [of "images s" i "(images s ! i)\<lparr>node_x := px, node_y := py\<rparr>"]
    by (auto simp add: dragImage_def Let_def blendModesSet_def)
next
  case (TransformSelected px py sx sy)
  then show ?thesis using assms(1)
    by (cases "getSelectedImage s") (simp_all add: transformSelected_def blendModesSet_mutateSelected)
next
  case (CropDrag v hs)
  then show ?thesis using assms(1)
    by (cases "getSelectedImage s") (simp_all add: cropDrag_def blendModesSet_mutateSelected)
next
  case ResetCrop
  then show ?thesis using assms(1)
    by (cases "getSelectedImage s") (simp_all add: resetCrop_def blendModesSet_mutateSelected)
next
  case FlipHorizontal
  then show ?thesis using assms(1)
    by (cases "getSelectedImage s") (simp_all add: flipHorizontal_def blendModesSet_mutateSelected)
next
  case FlipVertical
  then show ?thesis using assms(1)
    by (cases "getSelectedImage s") (simp_all add: flipVertical_def blendModesSet_mutateSelected)
next
  case RotateLeft
  then show ?thesis using assms(1)
    by (cases "getSelectedImage s") (simp_all add: rotateLeft_def blendModesSet_mutateSelected)
next
  case RotateRight
  then show ?thesis using assms(1)
    by (cases "getSelectedImage s") (simp_all add: rotateRight_def blendModesSet_mutateSelected)
next
  case (DuplicateImage newId)
  show ?thesis
  proof (cases "selectedIndex s")
    case None
    then show ?thesis using DuplicateImage assms(1)
      by (simp add: duplicateImage_def getSelectedImage_def)
  next
    case (Some i)
    then have "i < length (images s)" using selectedIndex_SomeD by blast
    then have "blendMode (images s ! i) \<noteq> []" using assms(1) by (simp add: blendModesSet_def)
    then show ?thesis using DuplicateImage assms(1) Some
      by (simp add: duplicateImage_def getSelectedImage_def Let_def blendModesSet_def)
  qed
next
  case BringToTop
  then show ?thesis using assms(1)
    by (cases "selectedIndex s")
      (auto simp add: bringToTop_def blendModesSet_moveToTopAt dest: selectedIndex_SomeD)
next
  case SendToBottom
  then show ?thesis using assms(1)
    by (cases "selectedIndex s")
      (auto simp add: sendToBottom_def blendModesSet_moveToBottomAt dest: selectedIndex_SomeD)
next
  case DeleteSelected
  then show ?thesis using assms(1)
    by (cases "selectedIndex s")
      (auto simp add: deleteSelected_def Let_def blendModesSet_def dest: in_set_takeD in_set_dropD)
next
  case (SetBlendMode k)
  then show ?thesis using assms(1)
    by (simp add: blendModesSet_setBlendMode blendModes_nonempty)
next
  case CycleBlendMode
  show ?thesis
  proof (cases "getSelectedImage s")
    case None
    then show ?thesis using CycleBlendMode assms(1) by (simp add: cycleBlendMode_def)
  next
    case (Some node)
    have "\<And>k. k < length blendModes \<Longrightarrow> blendModesSet (setBlendMode (fst (blendModes ! k)) s)"
      using assms(1) by (simp add: blendModesSet_setBlendMode blendModes_nonempty)
    then show ?thesis using CycleBlendMode Some
      by (simp add: cycleBlendMode_def Let_def blendModes_def split: option.splits)
  qed
next
  case (SetOpacity percent)
  then show ?thesis using assms(1)
    by (cases "getSelectedImage s") (simp_all add: setOpacity_def blendModesSet_mutateSelected)
next
  case (Nudge ax amount snap)
  have "blendModesSet ((pushUndo s)\<lparr>nudgeUndoPushed := True\<rparr>)"
    using assms(1) by (simp add: blendModesSet_def)
  then show ?thesis using Nudge assms(1)
    by (cases "getSelectedImage s")
      (simp_all add: handleNudge_def Let_def blendModesSet_mutateSelected)
next
  case NudgeIdle
  then show ?thesis using assms(1) by (simp add: nudgeIdle_def blendModesSet_def)
next
  case Undo
  then show ?thesis using assms by simp
next
  case Redo
  then show ?thesis using assms by simp
qed


lemma snapshotsSet_pushUndo: "snapshotsSet s \<Longrightarrow> snapshotsSet (pushUndo s)"
  using captureState_blendMode [of s]
  by (auto simp add: snapshotsSet_def truncateStack_drop dest!: in_set_dropD)

lemma snapshotsSet_same:
  "undoStack s' = undoStack s \<Longrightarrow> redoStack s' = redoStack s \<Longrightarrow> snapshotsSet s' = snapshotsSet s"
  by (simp add: snapshotsSet_def)

lemma wellFormed_undo:
  assumes "blendModesSet s" and "snapshotsSet s"
  shows "blendModesSet (undo s) \<and> snapshotsSet (undo s)"
proof (cases "undoStack s = []")
  case True
  then show ?thesis using assms by (simp add: undo_def)
next
  case False
  then have l: "last (undoStack s) \<in> set (undoStack s)" by simp
  have "\<forall>e \<in> set (st_images (last (undoStack s))). st_blendMode e \<noteq> []"
    using l assms(2) unfolding snapshotsSet_def by blast
  then have b: "blendModesSet (undo s)"
    using False by (simp add: undo_def Let_def blendModesSet_restore)
  have "snapshotsSet (undo s)"
    using False assms(2) captureState_blendMode [of s]
    by (auto simp add: undo_def Let_def snapshotsSet_def dest: in_set_butlastD)
  then show ?thesis using b by simp
qed

lemma wellFormed_redo:
  assumes "blendModesSet s" and "snapshotsSet s"
  shows "blendModesSet (redo s) \<and> snapshotsSet (redo s)"
proof (cases "redoStack s = []")
  case True
  then show ?thesis using assms by (simp add: redo_def)
next
  case False
  then have l: "last (redoStack s) \<in> set (redoStack s)" by simp
  have "\<forall>e \<in> set (st_images (last (redoStack s))). st_blendMode e \<noteq> []"
    using l assms(2) unfolding snapshotsSet_def by blast
  then have b: "blendModesSet (redo s)"
    using False by (simp add: redo_def Let_def blendModesSet_restore)
  have "snapshotsSet (redo s)"
    using False assms(2) captureState_blendMode [of s]
    by (auto simp add: redo_def Let_def snapshotsSet_def dest: in_set_butlastD)
  then show ?thesis using b by simp
qed

lemma wellFormed_perform:
  assumes "blendModesSet s" and "snapshotsSet s"
  shows "blendModesSet (perform a s) \<and> snapshotsSet (perform a s)"
proof (cases "a = Undo \<or> a = Redo")
  case True
  then show ?thesis using wellFormed_undo [OF assms] wellFormed_redo [OF assms] by auto
next
  case False
  then have na: "a \<noteq> Undo" "a \<noteq> Redo" by simp_all
  have b: "blendModesSet (perform a s)" by (rule blendModesSet_perform [OF assms(1) na])
  from perform_stacks [OF na, of s]
  have "snapshotsSet (perform a s)"
  proof
    assume "undoStack (perform a s) = undoStack s \<and> redoStack (perform a s) = redoStack s"
    then show ?thesis using assms(2) by (simp add: snapshotsSet_def)
  next
    assume "undoStack (perform a s) = undoStack (pushUndo s) \<and> redoStack (perform a s) = []"
    then show ?thesis using snapshotsSet_pushUndo [OF assms(2)] by (simp add: snapshotsSet_def)
  qed
  then show ?thesis using b by simp
qed

lemma reachable_blendModesSet:
  "blendModesSet (run as (initialEditor w h)) \<and> snapshotsSet (run as (initialEditor w h))"
proof -
  have "blendModesSet s \<and> snapshotsSet s \<Longrightarrow> blendModesSet (run as s) \<and> snapshotsSet (run as s)" for s
  proof (induction as arbitrary: s)
    case Nil
    then show ?case by (simp add: run_def)
  next
    case (Cons a as)
    have "blendModesSet (perform a s) \<and> snapshotsSet (perform a s)"
      using Cons.prems wellFormed_perform by blast
    from Cons.IH [OF this] show ?case by (simp add: run_def)
  qed
  moreover have "blendModesSet (initialEditor w h) \<and> snapshotsSet (initialEditor w h)"
    by (simp add: blendModesSet_def snapshotsSet_def initialEditor_def)
  ultimately show ?thesis by blast
qed




section \<open>Flips\<close>

lemma isRotatedSideways_band: "isRotatedSideways n \<longleftrightarrow> sidewaysBand (rotation n)"
proof -
  define r where "r = rotation n"
  define m where "m = r - 180 * of_int \<lfloor>r / 180\<rfloor>"
  have m: "0 \<le> m \<and> m < 180"
  proof -
    have "of_int \<lfloor>r / 180\<rfloor> * 180 \<le> r" using floor_divide_lower [of 180 r] by simp
    moreover have "r < (of_int \<lfloor>r / 180\<rfloor> + 1) * 180" using floor_divide_upper [of 180 r] by simp
    ultimately show ?thesis by (simp add: m_def algebra_simps)
  qed
  have "\<bar>js_rem r 180\<bar> = m \<or> \<bar>js_rem r 180\<bar> = 180 - m"
  proof (cases "r / 180 < 0")
    case False
    then show ?thesis using m by (simp add: js_rem_def js_trunc_def m_def)
  next
    case True
    show ?thesis
    proof (cases "of_int \<lfloor>r / 180\<rfloor> = r / 180")
      case True
      then have c: "\<lceil>r / 180\<rceil> = \<lfloor>r / 180\<rfloor>" by (metis ceiling_of_int floor_of_int)
      have "m = 0" using True by (simp add: m_def)
      then show ?thesis using \<open>r / 180 < 0\<close> c by (simp add: js_rem_def js_trunc_def m_def)
    next
      case False
      then have c: "\<lceil>r / 180\<rceil> = \<lfloor>r / 180\<rfloor> + 1"
        by (metis ceiling_altdef)
      have "js_rem r 180 = m - 180"
        using \<open>r / 180 < 0\<close> c by (simp add: js_rem_def js_trunc_def m_def algebra_simps)
      then show ?thesis using m by simp
    qed
  qed
  then have "(45 < \<bar>js_rem r 180\<bar> \<and> \<bar>js_rem r 180\<bar> < 135) \<longleftrightarrow> (45 < m \<and> m < 135)"
    by auto
  then show ?thesis
    by (simp add: isRotatedSideways_def sidewaysBand_def Let_def r_def m_def)
qed

lemma sidewaysBand_examples: "sidewaysBand 90" "sidewaysBand (- 90)" "\<not> sidewaysBand 0" "\<not> sidewaysBand 180"
     "\<not> sidewaysBand 45" "\<not> sidewaysBand 135"
  by (simp_all add: sidewaysBand_def Let_def)

lemma getSelectedImage_Some:
  "selectedIndex s = Some i \<Longrightarrow> getSelectedImage s = Some (images s ! i)"
  by (simp add: getSelectedImage_def)

lemma flip_images:
  assumes "selectedIndex s = Some i"
  shows "images (flipHorizontal s) =
           (if sidewaysBand (rotation (images s ! i))
            then (images s)[i := (images s ! i)\<lparr>scaleY := - scaleY (images s ! i)\<rparr>]
            else (images s)[i := (images s ! i)\<lparr>scaleX := - scaleX (images s ! i)\<rparr>])"
    and "images (flipVertical s) =
           (if sidewaysBand (rotation (images s ! i))
            then (images s)[i := (images s ! i)\<lparr>scaleX := - scaleX (images s ! i)\<rparr>]
            else (images s)[i := (images s ! i)\<lparr>scaleY := - scaleY (images s ! i)\<rparr>])"
  using assms
  by (simp_all add: flipHorizontal_def flipVertical_def getSelectedImage_Some
      isRotatedSideways_band mutateSelected_images)

lemma flip_rest:
  "selected (flipHorizontal s) = selected s \<and> selected (flipVertical s) = selected s
   \<and> imageCount (flipHorizontal s) = imageCount s \<and> imageCount (flipVertical s) = imageCount s
   \<and> stage (flipHorizontal s) = stage s \<and> stage (flipVertical s) = stage s"
  by (simp add: flipHorizontal_def flipVertical_def split: option.splits)

text \<open>
  Claim C7. With an image selected: when its rotation modulo 180 lies strictly between 45
  and 135, \<open>flipHorizontal\<close> negates its \<open>scaleY\<close> and \<open>flipVertical\<close> negates its \<open>scaleX\<close>;
  otherwise \<open>flipHorizontal\<close> negates \<open>scaleX\<close> and \<open>flipVertical\<close> negates \<open>scaleY\<close>. At
  rotation 90 and at rotation -90 \<open>flipHorizontal\<close> negates \<open>scaleY\<close>. No other field of
  the image, no other image, and neither the selection, the image counter nor the stage
  changes.
\<close>

theorem flips_follow_visual_axis:
  assumes "selectedIndex s = Some i"
  shows "(let n = images s ! i
          in (if sidewaysBand (rotation n)
              then images (flipHorizontal s) = (images s)[i := n\<lparr>scaleY := - scaleY n\<rparr>]
                 \<and> images (flipVertical s) = (images s)[i := n\<lparr>scaleX := - scaleX n\<rparr>]
              else images (flipHorizontal s) = (images s)[i := n\<lparr>scaleX := - scaleX n\<rparr>]
                 \<and> images (flipVertical s) = (images s)[i := n\<lparr>scaleY := - scaleY n\<rparr>])
           \<and> (rotation n = 90 \<or> rotation n = - 90 \<longrightarrow>
                images (flipHorizontal s) = (images s)[i := n\<lparr>scaleY := - scaleY n\<rparr>]))
       \<and> selected (flipHorizontal s) = selected s \<and> selected (flipVertical s) = selected s
       \<and> imageCount (flipHorizontal s) = imageCount s \<and> imageCount (flipVertical s) = imageCount s
       \<and> stage (flipHorizontal s) = stage s \<and> stage (flipVertical s) = stage s"
  using flip_images [OF assms] flip_rest [of s] sidewaysBand_examples(1,2)
  by (auto simp add: Let_def)

lemma example_rotated:
  "rotateRight exampleEditor = exampleEditor\<lparr>images := [exampleNode\<lparr>rotation := 90\<rparr>],
      undoStack := [captureState exampleEditor]\<rparr>"
  by (simp add: rotateRight_def getSelectedImage_def selectedIndex_def mutateSelected_def
      pushUndo_def Let_def exampleEditor_def initialEditor_def exampleNode_def
      truncateStack_drop MAX_UNDO_LEVELS_def)

theorem flips_follow_visual_axis_witness:
  "selectedIndex (rotateRight exampleEditor) = Some 0
   \<and> images (flipHorizontal (rotateRight exampleEditor))
       = [exampleNode\<lparr>rotation := 90, scaleY := - (1 / 2)\<rparr>]
   \<and> images (flipVertical (rotateRight exampleEditor))
       = [exampleNode\<lparr>rotation := 90, scaleX := - (1 / 2)\<rparr>]
   \<and> selectedIndex exampleEditor = Some 0
   \<and> images (flipHorizontal exampleEditor) = [exampleNode\<lparr>scaleX := - (1 / 2)\<rparr>]
   \<and> images (flipVertical exampleEditor) = [exampleNode\<lparr>scaleY := - (1 / 2)\<rparr>]"
proof -
  have h: "selectedIndex (rotateRight exampleEditor) = Some 0"
    unfolding example_rotated by (simp add: selectedIndex_def exampleEditor_def)
  have h0: "selectedIndex exampleEditor = Some 0"
    by (simp add: selectedIndex_def exampleEditor_def)
  have r: "images (rotateRight exampleEditor) = [exampleNode\<lparr>rotation := 90\<rparr>]"
    unfolding example_rotated by simp
  have r0: "images exampleEditor = [exampleNode]" by (simp add: exampleEditor_def)
  from flips_follow_visual_axis [OF h] flips_follow_visual_axis [OF h0] h h0
  show ?thesis
    by (simp add: r r0 Let_def sidewaysBand_def exampleNode_def)
qed

section \<open>Loading a project\<close>










lemma image_created_fields [simp]:
  "imageId (createKonvaImageFromState e) = st_id e"
  "node_x (createKonvaImageFromState e) = st_x e"
  "node_y (createKonvaImageFromState e) = st_y e"
  by (simp_all add: createKonvaImageFromState_def Let_def)

lemma placedEntry_fields [simp]:
  "st_id (placedEntry gen c ox oy n i e) = gen (c + i)"
  "st_x (placedEntry gen c ox oy n i e) = st_x e + ox"
  "st_y (placedEntry gen c ox oy n i e) = st_y e + oy"
  "st_zIndex (placedEntry gen c ox oy n i e) = real n + real i"
  by (simp_all add: placedEntry_def)









section \<open>The crop invariant over all actions\<close>

lemma cropInvariant_cong:
  "cropBounds m = cropBounds n \<Longrightarrow> originalWidth m = originalWidth n \<Longrightarrow>
   originalHeight m = originalHeight n \<Longrightarrow> cropInvariant m = cropInvariant n"
  by (simp add: cropInvariant_def)




lemma cropInvariant_scales [simp]:
  "cropInvariant (n\<lparr>scaleX := v\<rparr>) = cropInvariant n"
  "cropInvariant (n\<lparr>scaleY := v\<rparr>) = cropInvariant n"
  "cropInvariant (n\<lparr>rotation := v\<rparr>) = cropInvariant n"
  "cropInvariant (n\<lparr>node_x := v\<rparr>) = cropInvariant n"
  "cropInvariant (n\<lparr>node_y := v\<rparr>) = cropInvariant n"
  "cropInvariant (n\<lparr>opacity := v\<rparr>) = cropInvariant n"
  "cropInvariant (n\<lparr>blendMode := b\<rparr>) = cropInvariant n"
  "cropInvariant (n\<lparr>imageId := b\<rparr>) = cropInvariant n"
  by (simp_all add: cropInvariant_def)





text \<open>
  An image of less than 20 pixels violates the bound as soon as it is added: its bounds
  are all 0 and its height less 20 is negative.
\<close>

lemma small_image_outside_limit:
  "\<not> cropInvariant (last (images (addImage \<lparr>raster_ref = 2, raster_width = 10, raster_height = 10\<rparr>
       ''dot.png'' ''img_b'' (initialEditor 800 600))))"
  by (simp add: addImage_def Let_def cropInvariant_def boundsOk_def zeroCrop_def)

end
